theory Spec2Isabelle
  imports Main
begin

section \<open>The type-system document consulted by the extractor\<close>

text \<open>
  The extractor of \<^verbatim>\<open>pkg/engine/plan/type_field_extractor.go\<close> reads a parsed GraphQL
  type-system document through the methods of \<^verbatim>\<open>ast.Document\<close>. The document keeps its
  parts in tables and refers to them by integer references; a reference outside its table
  makes the Go runtime panic, which the model returns as a value. A reference is a
  natural number here: a negative Go \<^verbatim>\<open>int\<close> panics like one beyond the table.
\<close>

datatype error = IndexOutOfRange | NilPointerDereference

datatype NodeKind =
    NodeKindUnknown
  | NodeKindObjectTypeDefinition
  | NodeKindObjectTypeExtension
  | NodeKindInterfaceTypeDefinition
  | NodeKindInterfaceTypeExtension
  | NodeKindScalarTypeDefinition
  | NodeKindUnionTypeDefinition
  | NodeKindEnumTypeDefinition
  | NodeKindInputObjectTypeDefinition

record Node =
  Kind :: NodeKind
  Ref :: nat

text \<open>
  Modelled from the spec: the declarations of package \<^verbatim>\<open>ast\<close> are not part of the sources.
  The spec's Schema Navigator answers, for a node, its name, its field definitions and its
  directives, and for a field definition its name, its declared return type and its
  directives. A top-level definition is one row of \<open>TypeDefinitions\<close> (the node's \<open>Ref\<close>
  is the row), a field definition one row of \<open>FieldDefinitions\<close>, a directive one row of
  \<open>Directives\<close> holding its name (arguments are never inspected). \<open>fd_Type\<close> is the named
  type of the field with the list and non-null wrappers removed.
\<close>

record TypeDefinition =
  td_Name :: string
  td_Directives :: "nat list"
  td_FieldsDefinition :: "nat list"

record FieldDefinition =
  fd_Name :: string
  fd_Type :: string
  fd_Directives :: "nat list"

text \<open>
  Modelled from the spec: the index of a document looks a node up by type name (the first
  node registered under the name wins) and knows the names of the root operation types.
\<close>

record Index =
  nodes :: "(string \<times> Node) list"
  QueryTypeName :: string
  MutationTypeName :: string
  SubscriptionTypeName :: string

record Document =
  RootNodes :: "Node list"
  TypeDefinitions :: "TypeDefinition list"
  FieldDefinitions :: "FieldDefinition list"
  Directives :: "string list"
  Index :: Index

text \<open>Slice indexing \<^verbatim>\<open>xs[i]\<close>: the runtime panics when \<open>i\<close> is not below the length.\<close>

definition at :: "'a list \<Rightarrow> nat \<Rightarrow> error + 'a" where
  "at xs i = (if i < length xs then Inr (xs ! i) else Inl IndexOutOfRange)"

text \<open>Modelled from the spec: \<^verbatim>\<open>Index.FirstNodeByNameStr\<close>, look up a node by type name.\<close>

definition FirstNodeByNameStr :: "Index \<Rightarrow> string \<Rightarrow> Node option" where
  "FirstNodeByNameStr ix name = map_of (nodes ix) name"

text \<open>
  Modelled from the spec: \<^verbatim>\<open>Index.IsRootOperationTypeNameString\<close>, test whether a name is
  a root-operation-type name.
\<close>

definition IsRootOperationTypeNameString :: "Index \<Rightarrow> string \<Rightarrow> bool" where
  "IsRootOperationTypeNameString ix typeName =
     (typeName \<noteq> [] \<and>
      (typeName = QueryTypeName ix \<or> typeName = MutationTypeName ix
        \<or> typeName = SubscriptionTypeName ix))"

text \<open>
  Modelled from the spec: \<^verbatim>\<open>Document.NodeNameString\<close>, the name of a node. The zero node
  (kind unknown), which a failed lookup returns, has the empty name.
\<close>

definition NodeNameString :: "Document \<Rightarrow> Node \<Rightarrow> error + string" where
  "NodeNameString d node =
     (if Kind node = NodeKindUnknown then Inr []
      else map_sum id td_Name (at (TypeDefinitions d) (Ref node)))"

text \<open>
  Modelled from the spec: \<^verbatim>\<open>Document.NodeFieldDefinitions\<close>, the field definitions of a
  node. Object and interface types and their extensions have field definitions; every other
  kind of node has none.
\<close>

definition NodeFieldDefinitions :: "Document \<Rightarrow> Node \<Rightarrow> error + nat list" where
  "NodeFieldDefinitions d node =
     (if Kind node \<in> {NodeKindObjectTypeDefinition, NodeKindObjectTypeExtension,
                       NodeKindInterfaceTypeDefinition, NodeKindInterfaceTypeExtension}
      then map_sum id td_FieldsDefinition (at (TypeDefinitions d) (Ref node))
      else Inr [])"

text \<open>Modelled from the spec: \<^verbatim>\<open>Document.NodeDirectives\<close>, the directives on a node.\<close>

definition NodeDirectives :: "Document \<Rightarrow> Node \<Rightarrow> error + nat list" where
  "NodeDirectives d node =
     (if Kind node = NodeKindUnknown then Inr []
      else map_sum id td_Directives (at (TypeDefinitions d) (Ref node)))"

text \<open>Modelled from the spec: \<^verbatim>\<open>Document.DirectiveNameString\<close>.\<close>

definition DirectiveNameString :: "Document \<Rightarrow> nat \<Rightarrow> error + string" where
  "DirectiveNameString d ref = at (Directives d) ref"

text \<open>Modelled from the spec: \<^verbatim>\<open>Document.FieldDefinitionNameString\<close>.\<close>

definition FieldDefinitionNameString :: "Document \<Rightarrow> nat \<Rightarrow> error + string" where
  "FieldDefinitionNameString d ref = map_sum id fd_Name (at (FieldDefinitions d) ref)"

text \<open>
  Modelled from the spec: \<^verbatim>\<open>Document.FieldDefinitionTypeNode\<close>, the node of the declared
  return type of a field definition: the named type is looked up in the index, and a name
  the index does not know gives the zero node.
\<close>

definition FieldDefinitionTypeNode :: "Document \<Rightarrow> nat \<Rightarrow> error + Node" where
  "FieldDefinitionTypeNode d ref =
     (case at (FieldDefinitions d) ref of
        Inl e \<Rightarrow> Inl e
      | Inr fd \<Rightarrow>
          (case FirstNodeByNameStr (Index d) (fd_Type fd) of
             None \<Rightarrow> Inr \<lparr>Kind = NodeKindUnknown, Ref = 0\<rparr>
           | Some node \<Rightarrow> Inr node))"

text \<open>
  The loop of \<^verbatim>\<open>isEntity\<close> and of the library's named-directive test: is one of the
  directives named \<open>name\<close>? The references are read in order, so a reference outside the
  table panics only when no earlier directive has matched.
\<close>

fun hasDirectiveNamed :: "Document \<Rightarrow> string \<Rightarrow> nat list \<Rightarrow> error + bool" where
  "hasDirectiveNamed d name [] = Inr False"
| "hasDirectiveNamed d name (directiveRef # rest) =
     (case DirectiveNameString d directiveRef of
        Inl e \<Rightarrow> Inl e
      | Inr directiveName \<Rightarrow>
          if directiveName = name then Inr True else hasDirectiveNamed d name rest)"

text \<open>
  Modelled from the spec: \<^verbatim>\<open>Document.FieldDefinitionHasNamedDirective\<close>, whether the
  field definition carries a directive of the given name.
\<close>

definition FieldDefinitionHasNamedDirective :: "Document \<Rightarrow> nat \<Rightarrow> string \<Rightarrow> error + bool" where
  "FieldDefinitionHasNamedDirective d ref name =
     (case at (FieldDefinitions d) ref of
        Inl e \<Rightarrow> Inl e
      | Inr fd \<Rightarrow> hasDirectiveNamed d name (fd_Directives fd))"

section \<open>The extractor\<close>

definition federationKeyDirectiveName :: string where
  "federationKeyDirectiveName = ''key''"

definition federationRequireDirectiveName :: string where
  "federationRequireDirectiveName = ''requires''"

definition federationExternalDirectiveName :: string where
  "federationExternalDirectiveName = ''external''"

text \<open>
  Modelled from the spec: the declaration of \<^verbatim>\<open>TypeField\<close> is in another file of the
  package. The spec gives it a type name and an ordered list of field names, the two
  fields the extractor reads and writes.
\<close>

record TypeField =
  TypeName :: string
  FieldNames :: "string list"

text \<open>\<^verbatim>\<open>isEntity\<close>: some directive of the node is named \<open>key\<close>.\<close>

definition isEntity :: "Document \<Rightarrow> Node \<Rightarrow> error + bool" where
  "isEntity d astNode =
     (case NodeDirectives d astNode of
        Inl e \<Rightarrow> Inl e
      | Inr directiveRefs \<Rightarrow> hasDirectiveNamed d federationKeyDirectiveName directiveRefs)"

subsection \<open>The registry of the child walk\<close>

text \<open>
  \<^verbatim>\<open>addChildTypeFieldName\<close> returns whether the pair was added, and the updated list.
  The first record of the type decides: the name is appended to it unless it is there;
  without such a record a new one is appended to the list.
\<close>

fun addChildTypeFieldName :: "string \<Rightarrow> string \<Rightarrow> TypeField list \<Rightarrow> bool \<times> TypeField list" where
  "addChildTypeFieldName typeName fieldName [] =
     (True, [\<lparr>TypeName = typeName, FieldNames = [fieldName]\<rparr>])"
| "addChildTypeFieldName typeName fieldName (tf # rest) =
     (if TypeName tf \<noteq> typeName
      then (case addChildTypeFieldName typeName fieldName rest of
              (added, rest') \<Rightarrow> (added, tf # rest'))
      else if fieldName \<in> set (FieldNames tf) then (False, tf # rest)
      else (True, tf\<lparr>FieldNames := FieldNames tf @ [fieldName]\<rparr> # rest))"

text \<open>
  The field names registered for a type: those of the first record of that type, the only
  one \<^verbatim>\<open>addChildTypeFieldName\<close> reads and writes.
\<close>

definition firstFields :: "TypeField list \<Rightarrow> string \<Rightarrow> string list" where
  "firstFields tfs typeName =
     (case find (\<lambda>tf. TypeName tf = typeName) tfs of
        None \<Rightarrow> []
      | Some tf \<Rightarrow> FieldNames tf)"

subsection \<open>The child walk\<close>

text \<open>
  \<^verbatim>\<open>findChildNodesForType\<close> with its loop over the field definitions of the type. The
  recursive call sits inside the loop, and the list it returns is the one the rest of the
  loop goes on with.
\<close>

function findChildNodesForType :: "Document \<Rightarrow> string \<Rightarrow> TypeField list \<Rightarrow> error + TypeField list"
  and findChildNodesLoop :: "Document \<Rightarrow> string \<Rightarrow> nat list \<Rightarrow> TypeField list \<Rightarrow> error + TypeField list"
where
  "findChildNodesForType d typeName childNodes =
     (case FirstNodeByNameStr (Index d) typeName of
        None \<Rightarrow> Inr childNodes
      | Some node \<Rightarrow>
          (case NodeFieldDefinitions d node of
             Inl e \<Rightarrow> Inl e
           | Inr fieldsRefs \<Rightarrow> findChildNodesLoop d typeName fieldsRefs childNodes))"
| "findChildNodesLoop d typeName [] childNodes = Inr childNodes"
| "findChildNodesLoop d typeName (fieldRef # rest) childNodes =
     (case FieldDefinitionNameString d fieldRef of
        Inl e \<Rightarrow> Inl e
      | Inr fieldName \<Rightarrow>
          (case addChildTypeFieldName typeName fieldName childNodes of
             (added, childNodes') \<Rightarrow>
               if \<not> added then findChildNodesLoop d typeName rest childNodes'
               else
                 (case FieldDefinitionTypeNode d fieldRef of
                    Inl e \<Rightarrow> Inl e
                  | Inr typeNode \<Rightarrow>
                      (case NodeNameString d typeNode of
                         Inl e \<Rightarrow> Inl e
                       | Inr fieldTypeName \<Rightarrow>
                           (case findChildNodesForType d fieldTypeName childNodes' of
                              Inl e \<Rightarrow> Inl e
                            | Inr childNodes'' \<Rightarrow>
                                findChildNodesLoop d typeName rest childNodes'')))))"
  by pat_completeness auto

text \<open>
  The measure of the walk: the (type, field) pairs that can still be registered. Only a
  type name known to the index (or the name \<open>extra\<close> the loop runs for) and a field name
  of the table can be registered, and each registration removes one pair.
\<close>

definition pending :: "Document \<Rightarrow> string set \<Rightarrow> TypeField list \<Rightarrow> (string \<times> string) set" where
  "pending d extra cn =
     {(t, f). t \<in> fst ` set (nodes (Index d)) \<union> extra
        \<and> f \<in> fd_Name ` set (FieldDefinitions d)
        \<and> f \<notin> set (firstFields cn t)}"

definition walkMeasure1 ::
  "(Document \<times> string \<times> TypeField list) + (Document \<times> string \<times> nat list \<times> TypeField list) \<Rightarrow> nat" where
  "walkMeasure1 x =
     (case x of
        Inl (d, t, cn) \<Rightarrow> card (pending d {} cn)
      | Inr (d, t, refs, cn) \<Rightarrow> card (pending d {t} cn))"

definition walkMeasure2 ::
  "(Document \<times> string \<times> TypeField list) + (Document \<times> string \<times> nat list \<times> TypeField list) \<Rightarrow> nat" where
  "walkMeasure2 x = (case x of Inl _ \<Rightarrow> 1 | Inr _ \<Rightarrow> 0)"

definition walkMeasure3 ::
  "(Document \<times> string \<times> TypeField list) + (Document \<times> string \<times> nat list \<times> TypeField list) \<Rightarrow> nat" where
  "walkMeasure3 x = (case x of Inl _ \<Rightarrow> 0 | Inr (d, t, refs, cn) \<Rightarrow> length refs)"

subsection \<open>Child collection from the root set\<close>

text \<open>
  \<^verbatim>\<open>getAllChildNodes\<close>, first inner loop: the Go map from field name to field reference
  of the root type's node. A later field definition of the same name overwrites the entry.
\<close>

fun fieldNameToRefs :: "Document \<Rightarrow> nat list \<Rightarrow> (string \<rightharpoonup> nat) \<Rightarrow> error + (string \<rightharpoonup> nat)" where
  "fieldNameToRefs d [] fieldNameToRef = Inr fieldNameToRef"
| "fieldNameToRefs d (fieldRef # rest) fieldNameToRef =
     (case FieldDefinitionNameString d fieldRef of
        Inl e \<Rightarrow> Inl e
      | Inr fieldName \<Rightarrow> fieldNameToRefs d rest (fieldNameToRef(fieldName \<mapsto> fieldRef)))"

text \<open>Reading a Go map of integers: a missing key gives the zero value.\<close>

definition mapIndex :: "(string \<rightharpoonup> nat) \<Rightarrow> string \<Rightarrow> nat" where
  "mapIndex fieldNameToRef fieldName =
     (case fieldNameToRef fieldName of None \<Rightarrow> 0 | Some fieldRef \<Rightarrow> fieldRef)"

text \<open>The body of the second inner loop: one field name of a root record.\<close>

definition childNodesOfRootField ::
  "Document \<Rightarrow> (string \<rightharpoonup> nat) \<Rightarrow> string \<Rightarrow> TypeField list \<Rightarrow> error + TypeField list" where
  "childNodesOfRootField d fieldNameToRef fieldName childNodes =
     (let fieldRef = mapIndex fieldNameToRef fieldName in
      case FieldDefinitionTypeNode d fieldRef of
        Inl e \<Rightarrow> Inl e
      | Inr typeNode \<Rightarrow>
          (case NodeNameString d typeNode of
             Inl e \<Rightarrow> Inl e
           | Inr fieldTypeName \<Rightarrow> findChildNodesForType d fieldTypeName childNodes))"

fun childNodesOfRootFields ::
  "Document \<Rightarrow> (string \<rightharpoonup> nat) \<Rightarrow> string list \<Rightarrow> TypeField list \<Rightarrow> error + TypeField list" where
  "childNodesOfRootFields d fieldNameToRef [] childNodes = Inr childNodes"
| "childNodesOfRootFields d fieldNameToRef (fieldName # rest) childNodes =
     (case childNodesOfRootField d fieldNameToRef fieldName childNodes of
        Inl e \<Rightarrow> Inl e
      | Inr childNodes' \<Rightarrow> childNodesOfRootFields d fieldNameToRef rest childNodes')"

text \<open>The outer loop of \<^verbatim>\<open>getAllChildNodes\<close> over the root records.\<close>

fun getAllChildNodesLoop :: "Document \<Rightarrow> TypeField list \<Rightarrow> TypeField list \<Rightarrow> error + TypeField list" where
  "getAllChildNodesLoop d [] childNodes = Inr childNodes"
| "getAllChildNodesLoop d (rootNode # rest) childNodes =
     (case FirstNodeByNameStr (Index d) (TypeName rootNode) of
        None \<Rightarrow> getAllChildNodesLoop d rest childNodes
      | Some rootNodeASTNode \<Rightarrow>
          (case NodeFieldDefinitions d rootNodeASTNode of
             Inl e \<Rightarrow> Inl e
           | Inr fieldRefs \<Rightarrow>
               (case fieldNameToRefs d fieldRefs Map.empty of
                  Inl e \<Rightarrow> Inl e
                | Inr fieldNameToRef \<Rightarrow>
                    (case childNodesOfRootFields d fieldNameToRef (FieldNames rootNode) childNodes of
                       Inl e \<Rightarrow> Inl e
                     | Inr childNodes' \<Rightarrow> getAllChildNodesLoop d rest childNodes'))))"

definition getAllChildNodes :: "Document \<Rightarrow> TypeField list \<Rightarrow> error + TypeField list" where
  "getAllChildNodes d rootNodes = getAllChildNodesLoop d rootNodes []"

subsection \<open>Memory, and the base schema\<close>

text \<open>
  The extractor holds a pointer to the caller's document. \<^verbatim>\<open>baseSchema\<close> parses two
  further documents and has the first one changed in place by the merge, so the documents
  live in a heap of cells addressed by number: a fresh cell is appended, a pointer outside
  the heap is nil. \<open>baseSchemaCalls\<close> is a ghost counter of the invocations of
  \<^verbatim>\<open>baseSchema\<close>; nothing reads it.
\<close>

record Memory =
  heap :: "Document list"
  baseSchemaCalls :: nat

record TypeFieldExtractor =
  document :: nat

definition NewNodeExtractor :: "nat \<Rightarrow> TypeFieldExtractor" where
  "NewNodeExtractor documentPtr = \<lparr>document = documentPtr\<rparr>"

definition deref :: "Memory \<Rightarrow> nat \<Rightarrow> error + Document" where
  "deref m p = (if p < length (heap m) then Inr (heap m ! p) else Inl NilPointerDereference)"

definition alloc :: "Document \<Rightarrow> Memory \<Rightarrow> nat \<times> Memory" where
  "alloc doc m = (length (heap m), m\<lparr>heap := heap m @ [doc]\<rparr>)"

definition assign :: "nat \<Rightarrow> Document \<Rightarrow> Memory \<Rightarrow> Memory" where
  "assign p doc m = m\<lparr>heap := (heap m)[p := doc]\<rparr>"

text \<open>
  Modelled from the spec: the printer, the federation base-schema synthesis, the parser
  and the merge of the packages \<^verbatim>\<open>astprinter\<close>, \<^verbatim>\<open>federation\<close>, \<^verbatim>\<open>astparser\<close> and
  \<^verbatim>\<open>asttransform\<close> are not part of the sources; they are parameters. The printer and the
  synthesis return a text or fail (\<open>None\<close>); the parser returns a document and whether its
  report has errors; the merge returns the document as it has changed it and whether it
  failed.
\<close>

record Resolver =
  PrintString :: "Document \<Rightarrow> string option"
  BuildBaseSchemaDocument :: "string \<Rightarrow> string option"
  ParseGraphqlDocumentString :: "string \<Rightarrow> Document \<times> bool"
  MergeDefinitionWithBaseSchema :: "Document \<Rightarrow> Document \<times> bool"

text \<open>
  \<^verbatim>\<open>baseSchema\<close>: a pointer to the merged document, or nil. The two parsed documents are
  locals whose address is taken; the merge writes to the first one.
\<close>

definition baseSchema ::
  "Resolver \<Rightarrow> TypeFieldExtractor \<Rightarrow> Memory \<Rightarrow> error + (nat option \<times> Memory)" where
  "baseSchema res r m0 =
     (let m = m0\<lparr>baseSchemaCalls := Suc (baseSchemaCalls m0)\<rparr> in
      case deref m (document r) of
        Inl e \<Rightarrow> Inl e
      | Inr d \<Rightarrow>
          (case PrintString res d of
             None \<Rightarrow> Inr (None, m)
           | Some schemaSDL \<Rightarrow>
               (case BuildBaseSchemaDocument res schemaSDL of
                  None \<Rightarrow> Inr (None, m)
                | Some baseSchemaSDL \<Rightarrow>
                    (case ParseGraphqlDocumentString res baseSchemaSDL of
                       (parsed, hasErrors) \<Rightarrow>
                         (case alloc parsed m of
                            (documentPtr, m1) \<Rightarrow>
                              if hasErrors then Inr (None, m1)
                              else
                                (case MergeDefinitionWithBaseSchema res parsed of
                                   (merged, err) \<Rightarrow>
                                     (let m2 = assign documentPtr merged m1 in
                                      if err then Inr (None, m2)
                                      else
                                        (case PrintString res merged of
                                           None \<Rightarrow> Inr (None, m2)
                                         | Some mergedSDL \<Rightarrow>
                                             (case ParseGraphqlDocumentString res mergedSDL of
                                                (mergedDocument, hasErrors') \<Rightarrow>
                                                  (case alloc mergedDocument m2 of
                                                     (mergedPtr, m3) \<Rightarrow>
                                                       if hasErrors' then Inr (None, m3)
                                                       else Inr (Some mergedPtr, m3)))))))))))"

subsection \<open>Root collection\<close>

text \<open>
  The loop of \<^verbatim>\<open>addRootNodes\<close> over the field definitions of the node: a field
  definition that has the \<open>external\<close> directive is passed over, the name of any other is
  appended.
\<close>

fun rootFieldNames :: "Document \<Rightarrow> nat list \<Rightarrow> string list \<Rightarrow> error + string list" where
  "rootFieldNames d [] fieldNames = Inr fieldNames"
| "rootFieldNames d (fieldRef # rest) fieldNames =
     (case FieldDefinitionHasNamedDirective d fieldRef federationExternalDirectiveName of
        Inl e \<Rightarrow> Inl e
      | Inr external \<Rightarrow>
          if external then rootFieldNames d rest fieldNames
          else
            (case FieldDefinitionNameString d fieldRef of
               Inl e \<Rightarrow> Inl e
             | Inr fieldName \<Rightarrow> rootFieldNames d rest (fieldNames @ [fieldName])))"

text \<open>
  The test of \<^verbatim>\<open>addRootNodes\<close>, with the short circuit of the source: the base schema
  is consulted only for a node that is not an entity, and only when it is not nil.
\<close>

definition isRootNode ::
  "Memory \<Rightarrow> Document \<Rightarrow> Node \<Rightarrow> nat option \<Rightarrow> string \<Rightarrow> error + bool" where
  "isRootNode m d astNode baseDocument typeName =
     (case isEntity d astNode of
        Inl e \<Rightarrow> Inl e
      | Inr entity \<Rightarrow>
          if entity then Inr True
          else
            (case baseDocument of
               None \<Rightarrow> Inr False
             | Some p \<Rightarrow>
                 (case deref m p of
                    Inl e \<Rightarrow> Inl e
                  | Inr base \<Rightarrow> Inr (IsRootOperationTypeNameString (Index base) typeName))))"

definition addRootNodes ::
  "Resolver \<Rightarrow> TypeFieldExtractor \<Rightarrow> Node \<Rightarrow> TypeField list \<Rightarrow> Memory
     \<Rightarrow> error + (TypeField list \<times> Memory)" where
  "addRootNodes res r astNode rootNodes m =
     (case deref m (document r) of
        Inl e \<Rightarrow> Inl e
      | Inr d0 \<Rightarrow>
          (case NodeNameString d0 astNode of
             Inl e \<Rightarrow> Inl e
           | Inr typeName \<Rightarrow>
               (case baseSchema res r m of
                  Inl e \<Rightarrow> Inl e
                | Inr (baseDocument, m') \<Rightarrow>
                    (case deref m' (document r) of
                       Inl e \<Rightarrow> Inl e
                     | Inr d \<Rightarrow>
                         (case isRootNode m' d astNode baseDocument typeName of
                            Inl e \<Rightarrow> Inl e
                          | Inr isRoot \<Rightarrow>
                              if \<not> isRoot then Inr (rootNodes, m')
                              else
                                (case NodeFieldDefinitions d astNode of
                                   Inl e \<Rightarrow> Inl e
                                 | Inr fieldRefs \<Rightarrow>
                                     (case rootFieldNames d fieldRefs [] of
                                        Inl e \<Rightarrow> Inl e
                                      | Inr fieldNames \<Rightarrow>
                                          if fieldNames = [] then Inr (rootNodes, m')
                                          else Inr (rootNodes @
                                                 [\<lparr>TypeName = typeName, FieldNames = fieldNames\<rparr>],
                                                 m'))))))))"

text \<open>\<^verbatim>\<open>getAllRootNodes\<close>: only object type definitions and extensions are looked at.\<close>

fun getAllRootNodesLoop ::
  "Resolver \<Rightarrow> TypeFieldExtractor \<Rightarrow> Node list \<Rightarrow> TypeField list \<Rightarrow> Memory
     \<Rightarrow> error + (TypeField list \<times> Memory)" where
  "getAllRootNodesLoop res r [] rootNodes m = Inr (rootNodes, m)"
| "getAllRootNodesLoop res r (astNode # rest) rootNodes m =
     (if Kind astNode = NodeKindObjectTypeExtension \<or> Kind astNode = NodeKindObjectTypeDefinition
      then
        (case addRootNodes res r astNode rootNodes m of
           Inl e \<Rightarrow> Inl e
         | Inr (rootNodes', m') \<Rightarrow> getAllRootNodesLoop res r rest rootNodes' m')
      else getAllRootNodesLoop res r rest rootNodes m)"

definition getAllRootNodes ::
  "Resolver \<Rightarrow> TypeFieldExtractor \<Rightarrow> Memory \<Rightarrow> error + (TypeField list \<times> Memory)" where
  "getAllRootNodes res r m =
     (case deref m (document r) of
        Inl e \<Rightarrow> Inl e
      | Inr d \<Rightarrow> getAllRootNodesLoop res r (RootNodes d) [] m)"

text \<open>\<^verbatim>\<open>GetAllNodes\<close>: the root set, then the child set collected from it.\<close>

definition GetAllNodes ::
  "Resolver \<Rightarrow> TypeFieldExtractor \<Rightarrow> Memory
     \<Rightarrow> error + ((TypeField list \<times> TypeField list) \<times> Memory)" where
  "GetAllNodes res r m =
     (case getAllRootNodes res r m of
        Inl e \<Rightarrow> Inl e
      | Inr (rootNodes, m') \<Rightarrow>
          (case deref m' (document r) of
             Inl e \<Rightarrow> Inl e
           | Inr d \<Rightarrow>
               (case getAllChildNodes d rootNodes of
                  Inl e \<Rightarrow> Inl e
                | Inr childNodes \<Rightarrow> Inr ((rootNodes, childNodes), m'))))"

section \<open>The root set as a function of the document\<close>

text \<open>
  The document \<^verbatim>\<open>baseSchema\<close> returns a pointer to, as a function of the document the
  extractor points to: the same stages, without the memory.
\<close>

definition baseSchemaDocument :: "Resolver \<Rightarrow> Document \<Rightarrow> Document option" where
  "baseSchemaDocument res d =
     (case PrintString res d of
        None \<Rightarrow> None
      | Some schemaSDL \<Rightarrow>
          (case BuildBaseSchemaDocument res schemaSDL of
             None \<Rightarrow> None
           | Some baseSchemaSDL \<Rightarrow>
               (case ParseGraphqlDocumentString res baseSchemaSDL of
                  (parsed, hasErrors) \<Rightarrow>
                    if hasErrors then None
                    else
                      (case MergeDefinitionWithBaseSchema res parsed of
                         (merged, err) \<Rightarrow>
                           if err then None
                           else
                             (case PrintString res merged of
                                None \<Rightarrow> None
                              | Some mergedSDL \<Rightarrow>
                                  (case ParseGraphqlDocumentString res mergedSDL of
                                     (mergedDocument, hasErrors') \<Rightarrow>
                                       if hasErrors' then None else Some mergedDocument))))))"

definition isRootOperationType :: "Resolver \<Rightarrow> Document \<Rightarrow> string \<Rightarrow> bool" where
  "isRootOperationType res d typeName =
     (case baseSchemaDocument res d of
        None \<Rightarrow> False
      | Some base \<Rightarrow> IsRootOperationTypeNameString (Index base) typeName)"

text \<open>What \<^verbatim>\<open>addRootNodes\<close> appends for one node: nothing, or one record.\<close>

definition rootNodeEntry :: "Resolver \<Rightarrow> Document \<Rightarrow> Node \<Rightarrow> error + TypeField list" where
  "rootNodeEntry res d astNode =
     (case NodeNameString d astNode of
        Inl e \<Rightarrow> Inl e
      | Inr typeName \<Rightarrow>
          (case isEntity d astNode of
             Inl e \<Rightarrow> Inl e
           | Inr entity \<Rightarrow>
               if \<not> (entity \<or> isRootOperationType res d typeName) then Inr []
               else
                 (case NodeFieldDefinitions d astNode of
                    Inl e \<Rightarrow> Inl e
                  | Inr fieldRefs \<Rightarrow>
                      (case rootFieldNames d fieldRefs [] of
                         Inl e \<Rightarrow> Inl e
                       | Inr fieldNames \<Rightarrow>
                           if fieldNames = [] then Inr []
                           else Inr [\<lparr>TypeName = typeName, FieldNames = fieldNames\<rparr>]))))"

definition isObjectTypeNode :: "Node \<Rightarrow> bool" where
  "isObjectTypeNode astNode \<longleftrightarrow>
     Kind astNode = NodeKindObjectTypeExtension \<or> Kind astNode = NodeKindObjectTypeDefinition"

fun rootEntries :: "Resolver \<Rightarrow> Document \<Rightarrow> Node list \<Rightarrow> error + TypeField list" where
  "rootEntries res d [] = Inr []"
| "rootEntries res d (astNode # rest) =
     (if isObjectTypeNode astNode
      then
        (case rootNodeEntry res d astNode of
           Inl e \<Rightarrow> Inl e
         | Inr es \<Rightarrow>
             (case rootEntries res d rest of
                Inl e \<Rightarrow> Inl e
              | Inr es' \<Rightarrow> Inr (es @ es')))
      else rootEntries res d rest)"

text \<open>
  A field definition is external when the test of \<^verbatim>\<open>addRootNodes\<close> finds the directive;
  \<open>localFieldNames\<close> are the names of the field definitions that are not, in the order of
  the references.
\<close>

definition isExternalField :: "Document \<Rightarrow> nat \<Rightarrow> bool" where
  "isExternalField d fieldRef \<longleftrightarrow>
     FieldDefinitionHasNamedDirective d fieldRef federationExternalDirectiveName = Inr True"

definition localFieldNames :: "Document \<Rightarrow> nat list \<Rightarrow> string list" where
  "localFieldNames d fieldRefs =
     map (\<lambda>fieldRef. fd_Name (FieldDefinitions d ! fieldRef))
       (filter (\<lambda>fieldRef. \<not> isExternalField d fieldRef) fieldRefs)"

section \<open>Well-formed documents\<close>

text \<open>
  A well-formed document, as the parser builds it: every reference it holds is inside its
  table.
\<close>

definition wf_node :: "Document \<Rightarrow> Node \<Rightarrow> bool" where
  "wf_node d node \<longleftrightarrow> Kind node = NodeKindUnknown \<or> Ref node < length (TypeDefinitions d)"

definition wf_document :: "Document \<Rightarrow> bool" where
  "wf_document d \<longleftrightarrow>
     list_all (wf_node d) (RootNodes d)
   \<and> list_all (\<lambda>(name, node). wf_node d node) (nodes (Index d))
   \<and> list_all (\<lambda>td. list_all (\<lambda>ref. ref < length (FieldDefinitions d)) (td_FieldsDefinition td)
                   \<and> list_all (\<lambda>ref. ref < length (Directives d)) (td_Directives td))
        (TypeDefinitions d)
   \<and> list_all (\<lambda>fd. list_all (\<lambda>ref. ref < length (Directives d)) (fd_Directives fd))
        (FieldDefinitions d)"

section \<open>The records of the child set, and the types a root field leads to\<close>

text \<open>The names of the field definitions of the node the index gives for a type name.\<close>

definition indexedFieldNames :: "Document \<Rightarrow> string \<Rightarrow> string list" where
  "indexedFieldNames d typeName =
     (case FirstNodeByNameStr (Index d) typeName of
        None \<Rightarrow> []
      | Some node \<Rightarrow>
          (case NodeFieldDefinitions d node of
             Inl e \<Rightarrow> []
           | Inr fieldRefs \<Rightarrow> map (\<lambda>fieldRef. fd_Name (FieldDefinitions d ! fieldRef)) fieldRefs))"

text \<open>
  Every registered field name is the name of a field definition of the node the index
  gives for the type.
\<close>

definition declared :: "Document \<Rightarrow> TypeField list \<Rightarrow> bool" where
  "declared d cn \<longleftrightarrow>
     (\<forall>t f. f \<in> set (firstFields cn t) \<longrightarrow>
        (\<exists>node refs ref.
           FirstNodeByNameStr (Index d) t = Some node \<and> NodeFieldDefinitions d node = Inr refs
             \<and> ref \<in> set refs \<and> FieldDefinitionNameString d ref = Inr f))"

text \<open>
  The record of a type is complete when it lists the name of every field definition of the
  node the index gives for the type.
\<close>

definition completeAt :: "Document \<Rightarrow> TypeField list \<Rightarrow> string \<Rightarrow> bool" where
  "completeAt d cn t \<longleftrightarrow>
     (\<forall>node refs.
        FirstNodeByNameStr (Index d) t = Some node \<and> NodeFieldDefinitions d node = Inr refs
        \<longrightarrow> (\<forall>ref \<in> set refs. \<exists>f. FieldDefinitionNameString d ref = Inr f
                                    \<and> f \<in> set (firstFields cn t)))"

text \<open>
  While the loop of \<^verbatim>\<open>findChildNodesForType\<close> runs for a type, the record of the type is
  still being filled; \<open>S\<close> holds the types whose loops are running. Every other record
  is complete.
\<close>

definition completeExcept :: "Document \<Rightarrow> string set \<Rightarrow> TypeField list \<Rightarrow> bool" where
  "completeExcept d S cn \<longleftrightarrow> (\<forall>t. t \<notin> S \<and> firstFields cn t \<noteq> [] \<longrightarrow> completeAt d cn t)"

text \<open>
  The type name \<^verbatim>\<open>getAllChildNodes\<close> walks for one field name of a root record: the
  return type of the field definition the map gives for the name.
\<close>

definition rootFieldTypeName :: "Document \<Rightarrow> TypeField \<Rightarrow> string \<Rightarrow> string option" where
  "rootFieldTypeName d rootNode fieldName =
     (case FirstNodeByNameStr (Index d) (TypeName rootNode) of
        None \<Rightarrow> None
      | Some rootNodeASTNode \<Rightarrow>
          (case NodeFieldDefinitions d rootNodeASTNode of
             Inl e \<Rightarrow> None
           | Inr fieldRefs \<Rightarrow>
               (case fieldNameToRefs d fieldRefs Map.empty of
                  Inl e \<Rightarrow> None
                | Inr fieldNameToRef \<Rightarrow>
                    (case FieldDefinitionTypeNode d (mapIndex fieldNameToRef fieldName) of
                       Inl e \<Rightarrow> None
                     | Inr typeNode \<Rightarrow>
                         (case NodeNameString d typeNode of
                            Inl e \<Rightarrow> None
                          | Inr fieldTypeName \<Rightarrow> Some fieldTypeName)))))"

text \<open>The index gives, for the name, a node of that name.\<close>

definition indexedByName :: "Document \<Rightarrow> string \<Rightarrow> bool" where
  "indexedByName d typeName \<longleftrightarrow>
     (case FirstNodeByNameStr (Index d) typeName of
        None \<Rightarrow> False
      | Some node \<Rightarrow> NodeNameString d node = Inr typeName)"

text \<open>
  The node the index gives for \<open>A\<close> has a field definition whose declared return type
  is \<open>B\<close>.
\<close>

definition indexedNodeHasFieldOfType :: "Document \<Rightarrow> string \<Rightarrow> string \<Rightarrow> bool" where
  "indexedNodeHasFieldOfType d A B \<longleftrightarrow>
     (case FirstNodeByNameStr (Index d) A of
        None \<Rightarrow> False
      | Some node \<Rightarrow>
          (case NodeFieldDefinitions d node of
             Inl e \<Rightarrow> False
           | Inr fieldRefs \<Rightarrow>
               list_ex (\<lambda>fieldRef. fieldRef < length (FieldDefinitions d)
                          \<and> fd_Type (FieldDefinitions d ! fieldRef) = B) fieldRefs))"

text \<open>The node the index gives for the type declares no field name twice.\<close>

definition indexedNodeFieldNamesOnce :: "Document \<Rightarrow> string \<Rightarrow> bool" where
  "indexedNodeFieldNamesOnce d typeName \<longleftrightarrow> distinct (indexedFieldNames d typeName)"

text \<open>
  The type \<open>A\<close> is known to the index, has field definitions, and each one named \<open>f\<close>
  has the return type \<open>B\<close>.
\<close>

definition fieldLeadsTo :: "Document \<Rightarrow> string \<Rightarrow> string \<Rightarrow> string \<Rightarrow> bool" where
  "fieldLeadsTo d A f B \<longleftrightarrow>
     (\<exists>node refs.
        FirstNodeByNameStr (Index d) A = Some node \<and> NodeFieldDefinitions d node = Inr refs
      \<and> refs \<noteq> []
      \<and> (\<forall>ref \<in> set refs. FieldDefinitionNameString d ref = Inr f \<longrightarrow>
            (\<exists>typeNode. FieldDefinitionTypeNode d ref = Inr typeNode
               \<and> NodeNameString d typeNode = Inr B)))"

text \<open>
  The two halves of a cycle between the types \<open>A\<close> and \<open>B\<close>: once the field \<open>fAB\<close> of \<open>A\<close>
  is registered, \<open>B\<close> has a record, and the other way round. While the walk of a type in
  \<open>X\<close> has been called for and has not yet registered a field, the record may be missing.
\<close>

definition linked ::
  "string \<Rightarrow> string \<Rightarrow> string \<Rightarrow> string \<Rightarrow> string set \<Rightarrow> TypeField list \<Rightarrow> bool" where
  "linked A B fAB fBA X cn \<longleftrightarrow>
     (fAB \<in> set (firstFields cn A) \<longrightarrow> firstFields cn B \<noteq> [] \<or> B \<in> X)
   \<and> (fBA \<in> set (firstFields cn B) \<longrightarrow> firstFields cn A \<noteq> [] \<or> A \<in> X)"

text \<open>
  The first field definition of a name among the field definitions of a node: the one the
  walk registers the name with, and whose return type it goes on to.
\<close>

definition firstFieldNamed :: "Document \<Rightarrow> nat list \<Rightarrow> string \<Rightarrow> nat option" where
  "firstFieldNamed d fieldRefs fieldName =
     find (\<lambda>fieldRef. FieldDefinitionNameString d fieldRef = Inr fieldName) fieldRefs"

text \<open>The type name the walk goes on to from a field definition: its return type.\<close>

definition returnTypeName :: "Document \<Rightarrow> nat \<Rightarrow> string option" where
  "returnTypeName d fieldRef =
     (case FieldDefinitionTypeNode d fieldRef of
        Inl e \<Rightarrow> None
      | Inr typeNode \<Rightarrow>
          (case NodeNameString d typeNode of
             Inl e \<Rightarrow> None
           | Inr t \<Rightarrow> Some t))"

text \<open>
  The child set is closed when the return type of every registered field has a record,
  unless the node the index gives for it has no field definition. While the walk of a
  type in \<open>X\<close> has been called for and has not yet registered a field, its record may be
  missing.
\<close>

definition closed :: "Document \<Rightarrow> string set \<Rightarrow> TypeField list \<Rightarrow> bool" where
  "closed d X cn \<longleftrightarrow>
     (\<forall>t f node refs ref t'.
        f \<in> set (firstFields cn t) \<and> FirstNodeByNameStr (Index d) t = Some node
          \<and> NodeFieldDefinitions d node = Inr refs \<and> firstFieldNamed d refs f = Some ref
          \<and> returnTypeName d ref = Some t'
        \<longrightarrow> t' \<in> X \<or> firstFields cn t' \<noteq> [] \<or> indexedFieldNames d t' = [])"

section \<open>The fields declared on a type\<close>

text \<open>
  The top-level nodes that declare a type: the definitions and the extensions of its
  name, in the order of the document.
\<close>

definition nodesOfType :: "Document \<Rightarrow> string \<Rightarrow> Node list" where
  "nodesOfType d typeName =
     filter (\<lambda>node. NodeNameString d node = Inr typeName) (RootNodes d)"

text \<open>The field definitions declared on a type: those of all the nodes that declare it.\<close>

definition declaredFieldRefs :: "Document \<Rightarrow> string \<Rightarrow> nat list" where
  "declaredFieldRefs d typeName =
     concat (map (\<lambda>node. case NodeFieldDefinitions d node of
                            Inl e \<Rightarrow> []
                          | Inr fieldRefs \<Rightarrow> fieldRefs)
              (nodesOfType d typeName))"

definition declaredFieldNames :: "Document \<Rightarrow> string \<Rightarrow> string list" where
  "declaredFieldNames d typeName =
     map (\<lambda>fieldRef. fd_Name (FieldDefinitions d ! fieldRef)) (declaredFieldRefs d typeName)"

text \<open>The type \<open>A\<close> has a field whose declared return type is \<open>B\<close>.\<close>

definition hasFieldOfType :: "Document \<Rightarrow> string \<Rightarrow> string \<Rightarrow> bool" where
  "hasFieldOfType d A B \<longleftrightarrow>
     list_ex (\<lambda>fieldRef. fieldRef < length (FieldDefinitions d)
                \<and> fd_Type (FieldDefinitions d ! fieldRef) = B)
       (declaredFieldRefs d A)"

text \<open>The type declares no field name twice.\<close>

definition declaresFieldNamesOnce :: "Document \<Rightarrow> string \<Rightarrow> bool" where
  "declaresFieldNamesOnce d typeName \<longleftrightarrow> distinct (declaredFieldNames d typeName)"

text \<open>
  The type is declared by a single top-level node, and this node is the one the index
  gives for the name of the type: the type has no extension and no second definition.
\<close>

definition declaredByIndexedNode :: "Document \<Rightarrow> string \<Rightarrow> bool" where
  "declaredByIndexedNode d typeName \<longleftrightarrow>
     (case FirstNodeByNameStr (Index d) typeName of
        None \<Rightarrow> False
      | Some node \<Rightarrow> nodesOfType d typeName = [node])"

section \<open>Example documents\<close>

text \<open>
  The schema of the spec's end-to-end scenario:
  \<^verbatim>\<open>type Query { a: Foo }\<close>,
  \<^verbatim>\<open>type Foo @key(fields: "id") { id: ID, b: Bar, secret: String @external }\<close>,
  \<^verbatim>\<open>type Bar { id: ID, a: Foo }\<close>.
\<close>

definition exDoc :: Document where
  "exDoc =
     \<lparr>RootNodes = [\<lparr>Kind = NodeKindObjectTypeDefinition, Ref = 0\<rparr>,
                   \<lparr>Kind = NodeKindObjectTypeDefinition, Ref = 1\<rparr>,
                   \<lparr>Kind = NodeKindObjectTypeDefinition, Ref = 2\<rparr>],
      TypeDefinitions =
        [\<lparr>td_Name = ''Query'', td_Directives = [], td_FieldsDefinition = [0]\<rparr>,
         \<lparr>td_Name = ''Foo'', td_Directives = [0], td_FieldsDefinition = [1, 2, 3]\<rparr>,
         \<lparr>td_Name = ''Bar'', td_Directives = [], td_FieldsDefinition = [4, 5]\<rparr>],
      FieldDefinitions =
        [\<lparr>fd_Name = ''a'', fd_Type = ''Foo'', fd_Directives = []\<rparr>,
         \<lparr>fd_Name = ''id'', fd_Type = ''ID'', fd_Directives = []\<rparr>,
         \<lparr>fd_Name = ''b'', fd_Type = ''Bar'', fd_Directives = []\<rparr>,
         \<lparr>fd_Name = ''secret'', fd_Type = ''String'', fd_Directives = [1]\<rparr>,
         \<lparr>fd_Name = ''id'', fd_Type = ''ID'', fd_Directives = []\<rparr>,
         \<lparr>fd_Name = ''a'', fd_Type = ''Foo'', fd_Directives = []\<rparr>],
      Directives = [''key'', ''external''],
      Index =
        \<lparr>nodes = [(''Query'', \<lparr>Kind = NodeKindObjectTypeDefinition, Ref = 0\<rparr>),
                  (''Foo'', \<lparr>Kind = NodeKindObjectTypeDefinition, Ref = 1\<rparr>),
                  (''Bar'', \<lparr>Kind = NodeKindObjectTypeDefinition, Ref = 2\<rparr>)],
         QueryTypeName = [], MutationTypeName = [], SubscriptionTypeName = []\<rparr>\<rparr>"

text \<open>
  A resolver whose every stage succeeds, small enough to run: the printer prints the name
  of the query type, the parser reads it into a copy of \<open>base\<close>, and the merge gives the
  document the default root operation type \<open>Query\<close>.
\<close>

definition okResolver :: "Document \<Rightarrow> Resolver" where
  "okResolver base =
     \<lparr>PrintString = (\<lambda>doc. Some (QueryTypeName (Index doc))),
      BuildBaseSchemaDocument = (\<lambda>sdl. Some sdl),
      ParseGraphqlDocumentString =
        (\<lambda>sdl. (base\<lparr>Index := (Index base)\<lparr>QueryTypeName := sdl\<rparr>\<rparr>, False)),
      MergeDefinitionWithBaseSchema =
        (\<lambda>doc. (doc\<lparr>Index := (Index doc)\<lparr>QueryTypeName := ''Query''\<rparr>\<rparr>, False))\<rparr>"

text \<open>A resolver whose first stage, printing the document, fails.\<close>

definition failResolver :: Resolver where
  "failResolver =
     \<lparr>PrintString = (\<lambda>_. None),
      BuildBaseSchemaDocument = (\<lambda>sdl. Some sdl),
      ParseGraphqlDocumentString = (\<lambda>_. (exDoc, False)),
      MergeDefinitionWithBaseSchema = (\<lambda>doc. (doc, False))\<rparr>"

text \<open>The extractor of the examples points to cell 0, where \<open>exMemory\<close> puts the document.\<close>

definition exExtractor :: TypeFieldExtractor where
  "exExtractor = NewNodeExtractor 0"

definition exMemory :: "Document \<Rightarrow> Memory" where
  "exMemory doc = \<lparr>heap = [doc], baseSchemaCalls = 0\<rparr>"

definition exRootNodes :: "TypeField list" where
  "exRootNodes =
     [\<lparr>TypeName = ''Query'', FieldNames = [''a'']\<rparr>,
      \<lparr>TypeName = ''Foo'', FieldNames = [''id'', ''b'']\<rparr>]"

definition exChildNodes :: "TypeField list" where
  "exChildNodes =
     [\<lparr>TypeName = ''Foo'', FieldNames = [''id'', ''b'', ''secret'']\<rparr>,
      \<lparr>TypeName = ''Bar'', FieldNames = [''id'', ''a'']\<rparr>]"

text \<open>
  The memory after the extraction from \<open>exDoc\<close> with \<open>okResolver exDoc\<close>: each of the
  three calls of \<^verbatim>\<open>baseSchema\<close> has left its two parsed documents, the first of them as
  the merge has changed it.
\<close>

definition exMergedDoc :: Document where
  "exMergedDoc = exDoc\<lparr>Index := (Index exDoc)\<lparr>QueryTypeName := ''Query''\<rparr>\<rparr>"

definition exMemoryAfter :: Memory where
  "exMemoryAfter =
     \<lparr>heap = [exDoc, exMergedDoc, exMergedDoc, exMergedDoc, exMergedDoc, exMergedDoc, exMergedDoc],
      baseSchemaCalls = 3\<rparr>"

text \<open>
  A type declared twice at the top level, both nodes entities:
  \<^verbatim>\<open>type User @key(fields: "id") { id: ID }\<close> and
  \<^verbatim>\<open>extend type User @key(fields: "id") { name: String }\<close>.
\<close>

definition dupTypeDoc :: Document where
  "dupTypeDoc =
     \<lparr>RootNodes = [\<lparr>Kind = NodeKindObjectTypeDefinition, Ref = 0\<rparr>,
                   \<lparr>Kind = NodeKindObjectTypeExtension, Ref = 1\<rparr>],
      TypeDefinitions =
        [\<lparr>td_Name = ''User'', td_Directives = [0], td_FieldsDefinition = [0]\<rparr>,
         \<lparr>td_Name = ''User'', td_Directives = [1], td_FieldsDefinition = [1]\<rparr>],
      FieldDefinitions =
        [\<lparr>fd_Name = ''id'', fd_Type = ''ID'', fd_Directives = []\<rparr>,
         \<lparr>fd_Name = ''name'', fd_Type = ''String'', fd_Directives = []\<rparr>],
      Directives = [''key'', ''key''],
      Index =
        \<lparr>nodes = [(''User'', \<lparr>Kind = NodeKindObjectTypeDefinition, Ref = 0\<rparr>)],
         QueryTypeName = [], MutationTypeName = [], SubscriptionTypeName = []\<rparr>\<rparr>"

definition dupTypeRootNodes :: "TypeField list" where
  "dupTypeRootNodes =
     [\<lparr>TypeName = ''User'', FieldNames = [''id'']\<rparr>,
      \<lparr>TypeName = ''User'', FieldNames = [''name'']\<rparr>]"

text \<open>
  A type that declares a field name twice, which the parser does not reject:
  \<^verbatim>\<open>type Item @key(fields: "a") { a: Int a: Int }\<close>.
\<close>

definition dupFieldDoc :: Document where
  "dupFieldDoc =
     \<lparr>RootNodes = [\<lparr>Kind = NodeKindObjectTypeDefinition, Ref = 0\<rparr>],
      TypeDefinitions =
        [\<lparr>td_Name = ''Item'', td_Directives = [0], td_FieldsDefinition = [0, 1]\<rparr>],
      FieldDefinitions =
        [\<lparr>fd_Name = ''a'', fd_Type = ''Int'', fd_Directives = []\<rparr>,
         \<lparr>fd_Name = ''a'', fd_Type = ''Int'', fd_Directives = []\<rparr>],
      Directives = [''key''],
      Index =
        \<lparr>nodes = [(''Item'', \<lparr>Kind = NodeKindObjectTypeDefinition, Ref = 0\<rparr>)],
         QueryTypeName = [], MutationTypeName = [], SubscriptionTypeName = []\<rparr>\<rparr>"

text \<open>
  An interface that carries the \<open>key\<close> directive:
  \<^verbatim>\<open>interface Media @key(fields: "id") { id: ID }\<close>.
\<close>

definition ifaceDoc :: Document where
  "ifaceDoc =
     \<lparr>RootNodes = [\<lparr>Kind = NodeKindInterfaceTypeDefinition, Ref = 0\<rparr>],
      TypeDefinitions =
        [\<lparr>td_Name = ''Media'', td_Directives = [0], td_FieldsDefinition = [0]\<rparr>],
      FieldDefinitions =
        [\<lparr>fd_Name = ''id'', fd_Type = ''ID'', fd_Directives = []\<rparr>],
      Directives = [''key''],
      Index =
        \<lparr>nodes = [(''Media'', \<lparr>Kind = NodeKindInterfaceTypeDefinition, Ref = 0\<rparr>)],
         QueryTypeName = [], MutationTypeName = [], SubscriptionTypeName = []\<rparr>\<rparr>"

text \<open>
  A root record whose field name is not a field of the node the index gives for its type:
  \<^verbatim>\<open>type Query { me: User }\<close>, \<^verbatim>\<open>type User @key(fields: "id") { id: ID }\<close> and
  \<^verbatim>\<open>extend type User @key(fields: "id") { name: String }\<close>. The index knows \<open>User\<close> by
  its definition, which has no field \<open>name\<close>.
\<close>

definition extDoc :: Document where
  "extDoc =
     \<lparr>RootNodes = [\<lparr>Kind = NodeKindObjectTypeDefinition, Ref = 0\<rparr>,
                   \<lparr>Kind = NodeKindObjectTypeDefinition, Ref = 1\<rparr>,
                   \<lparr>Kind = NodeKindObjectTypeExtension, Ref = 2\<rparr>],
      TypeDefinitions =
        [\<lparr>td_Name = ''Query'', td_Directives = [], td_FieldsDefinition = [0]\<rparr>,
         \<lparr>td_Name = ''User'', td_Directives = [0], td_FieldsDefinition = [1]\<rparr>,
         \<lparr>td_Name = ''User'', td_Directives = [1], td_FieldsDefinition = [2]\<rparr>],
      FieldDefinitions =
        [\<lparr>fd_Name = ''me'', fd_Type = ''User'', fd_Directives = []\<rparr>,
         \<lparr>fd_Name = ''id'', fd_Type = ''ID'', fd_Directives = []\<rparr>,
         \<lparr>fd_Name = ''name'', fd_Type = ''String'', fd_Directives = []\<rparr>],
      Directives = [''key'', ''key''],
      Index =
        \<lparr>nodes = [(''Query'', \<lparr>Kind = NodeKindObjectTypeDefinition, Ref = 0\<rparr>),
                  (''User'', \<lparr>Kind = NodeKindObjectTypeDefinition, Ref = 1\<rparr>)],
         QueryTypeName = [], MutationTypeName = [], SubscriptionTypeName = []\<rparr>\<rparr>"

text \<open>
  A type that declares a field name twice, with two return types:
  \<^verbatim>\<open>type B @key(fields: "a") { a: A }\<close> and \<^verbatim>\<open>type A { b: String b: B }\<close>.
\<close>

definition shadowDoc :: Document where
  "shadowDoc =
     \<lparr>RootNodes = [\<lparr>Kind = NodeKindObjectTypeDefinition, Ref = 0\<rparr>,
                   \<lparr>Kind = NodeKindObjectTypeDefinition, Ref = 1\<rparr>],
      TypeDefinitions =
        [\<lparr>td_Name = ''B'', td_Directives = [0], td_FieldsDefinition = [0]\<rparr>,
         \<lparr>td_Name = ''A'', td_Directives = [], td_FieldsDefinition = [1, 2]\<rparr>],
      FieldDefinitions =
        [\<lparr>fd_Name = ''a'', fd_Type = ''A'', fd_Directives = []\<rparr>,
         \<lparr>fd_Name = ''b'', fd_Type = ''String'', fd_Directives = []\<rparr>,
         \<lparr>fd_Name = ''b'', fd_Type = ''B'', fd_Directives = []\<rparr>],
      Directives = [''key''],
      Index =
        \<lparr>nodes = [(''B'', \<lparr>Kind = NodeKindObjectTypeDefinition, Ref = 0\<rparr>),
                  (''A'', \<lparr>Kind = NodeKindObjectTypeDefinition, Ref = 1\<rparr>)],
         QueryTypeName = [], MutationTypeName = [], SubscriptionTypeName = []\<rparr>\<rparr>"

text \<open>
  A type whose one field returning the other type of a cycle is declared by an extension:
  \<^verbatim>\<open>type B @key(fields: "a") { a: A }\<close>, \<^verbatim>\<open>type A { x: Int }\<close> and
  \<^verbatim>\<open>extend type A { b: B }\<close>. The index knows \<open>A\<close> by its definition.
\<close>

definition extCycleDoc :: Document where
  "extCycleDoc =
     \<lparr>RootNodes = [\<lparr>Kind = NodeKindObjectTypeDefinition, Ref = 0\<rparr>,
                   \<lparr>Kind = NodeKindObjectTypeDefinition, Ref = 1\<rparr>,
                   \<lparr>Kind = NodeKindObjectTypeExtension, Ref = 2\<rparr>],
      TypeDefinitions =
        [\<lparr>td_Name = ''B'', td_Directives = [0], td_FieldsDefinition = [0]\<rparr>,
         \<lparr>td_Name = ''A'', td_Directives = [], td_FieldsDefinition = [1]\<rparr>,
         \<lparr>td_Name = ''A'', td_Directives = [], td_FieldsDefinition = [2]\<rparr>],
      FieldDefinitions =
        [\<lparr>fd_Name = ''a'', fd_Type = ''A'', fd_Directives = []\<rparr>,
         \<lparr>fd_Name = ''x'', fd_Type = ''Int'', fd_Directives = []\<rparr>,
         \<lparr>fd_Name = ''b'', fd_Type = ''B'', fd_Directives = []\<rparr>],
      Directives = [''key''],
      Index =
        \<lparr>nodes = [(''B'', \<lparr>Kind = NodeKindObjectTypeDefinition, Ref = 0\<rparr>),
                  (''A'', \<lparr>Kind = NodeKindObjectTypeDefinition, Ref = 1\<rparr>)],
         QueryTypeName = [], MutationTypeName = [], SubscriptionTypeName = []\<rparr>\<rparr>"

text \<open>
  A type that declares a field name twice, once with the \<open>external\<close> directive and once
  without it: \<^verbatim>\<open>type Foo @key(fields: "id") { id: ID @external id: ID }\<close>.
\<close>

definition dupExternalDoc :: Document where
  "dupExternalDoc =
     \<lparr>RootNodes = [\<lparr>Kind = NodeKindObjectTypeDefinition, Ref = 0\<rparr>],
      TypeDefinitions =
        [\<lparr>td_Name = ''Foo'', td_Directives = [0], td_FieldsDefinition = [0, 1]\<rparr>],
      FieldDefinitions =
        [\<lparr>fd_Name = ''id'', fd_Type = ''ID'', fd_Directives = [1]\<rparr>,
         \<lparr>fd_Name = ''id'', fd_Type = ''ID'', fd_Directives = []\<rparr>],
      Directives = [''key'', ''external''],
      Index =
        \<lparr>nodes = [(''Foo'', \<lparr>Kind = NodeKindObjectTypeDefinition, Ref = 0\<rparr>)],
         QueryTypeName = [], MutationTypeName = [], SubscriptionTypeName = []\<rparr>\<rparr>"

text \<open>
  A type whose definition declares a field that its extension marks as external:
  \<^verbatim>\<open>type User @key(fields: "id") { id: ID }\<close> and
  \<^verbatim>\<open>extend type User @key(fields: "id") { id: ID @external name: String }\<close>.
\<close>

definition splitExternalDoc :: Document where
  "splitExternalDoc =
     \<lparr>RootNodes = [\<lparr>Kind = NodeKindObjectTypeDefinition, Ref = 0\<rparr>,
                   \<lparr>Kind = NodeKindObjectTypeExtension, Ref = 1\<rparr>],
      TypeDefinitions =
        [\<lparr>td_Name = ''User'', td_Directives = [0], td_FieldsDefinition = [0]\<rparr>,
         \<lparr>td_Name = ''User'', td_Directives = [1], td_FieldsDefinition = [1, 2]\<rparr>],
      FieldDefinitions =
        [\<lparr>fd_Name = ''id'', fd_Type = ''ID'', fd_Directives = []\<rparr>,
         \<lparr>fd_Name = ''id'', fd_Type = ''ID'', fd_Directives = [2]\<rparr>,
         \<lparr>fd_Name = ''name'', fd_Type = ''String'', fd_Directives = []\<rparr>],
      Directives = [''key'', ''key'', ''external''],
      Index =
        \<lparr>nodes = [(''User'', \<lparr>Kind = NodeKindObjectTypeDefinition, Ref = 0\<rparr>)],
         QueryTypeName = [], MutationTypeName = [], SubscriptionTypeName = []\<rparr>\<rparr>"

section \<open>Termination of the child walk\<close>

lemma firstFields_Nil [simp]: "firstFields [] t = []"
  by (simp add: firstFields_def)

lemma firstFields_Cons [simp]:
  "firstFields (tf # tfs) t = (if TypeName tf = t then FieldNames tf else firstFields tfs t)"
  by (simp add: firstFields_def)

lemma addChild_added_iff:
  "addChildTypeFieldName t f cn = (added, cn') \<Longrightarrow> added \<longleftrightarrow> f \<notin> set (firstFields cn t)"
  by (induction cn arbitrary: added cn') (auto split: if_splits prod.splits)

lemma addChild_not_added:
  "addChildTypeFieldName t f cn = (False, cn') \<Longrightarrow> cn' = cn"
  by (induction cn arbitrary: cn') (auto split: if_splits prod.splits)

lemma addChild_firstFields:
  "addChildTypeFieldName t f cn = (added, cn') \<Longrightarrow>
     firstFields cn' t' = (if t' = t \<and> added then firstFields cn t @ [f] else firstFields cn t')"
  by (induction cn arbitrary: added cn') (auto split: if_splits prod.splits)

lemma finite_pending: "finite extra \<Longrightarrow> finite (pending d extra cn)"
proof -
  assume "finite extra"
  then have "finite ((fst ` set (nodes (Index d)) \<union> extra) \<times> fd_Name ` set (FieldDefinitions d))"
    by simp
  moreover have "pending d extra cn
      \<subseteq> (fst ` set (nodes (Index d)) \<union> extra) \<times> fd_Name ` set (FieldDefinitions d)"
    by (auto simp: pending_def)
  ultimately show ?thesis by (rule rev_finite_subset)
qed

text \<open>Where the walk is defined, it only adds field names to a type.\<close>

lemma walk_grows_dom:
  "findChildNodesForType_findChildNodesLoop_dom (Inl (d, t, cn)) \<Longrightarrow>
     findChildNodesForType d t cn = Inr cn' \<Longrightarrow> set (firstFields cn u) \<subseteq> set (firstFields cn' u)"
  "findChildNodesForType_findChildNodesLoop_dom (Inr (d, t, refs, cn)) \<Longrightarrow>
     findChildNodesLoop d t refs cn = Inr cn' \<Longrightarrow> set (firstFields cn u) \<subseteq> set (firstFields cn' u)"
proof (induction d t cn and d t refs cn arbitrary: cn' and cn'
    rule: findChildNodesForType_findChildNodesLoop.pinduct)
  case (1 d typeName childNodes)
  then show ?case
    by (auto simp: findChildNodesForType.psimps split: option.splits sum.splits)
next
  case (2 d typeName childNodes)
  then show ?case by (simp add: findChildNodesLoop.psimps)
next
  case (3 d typeName fieldRef rest childNodes)
  note dom = "3.hyps"
  note res = "3.prems"
  from res dom obtain fieldName where fn: "FieldDefinitionNameString d fieldRef = Inr fieldName"
    by (cases "FieldDefinitionNameString d fieldRef") (auto simp: findChildNodesLoop.psimps)
  obtain added cn1 where add: "addChildTypeFieldName typeName fieldName childNodes = (added, cn1)"
    by (cases "addChildTypeFieldName typeName fieldName childNodes") auto
  have step: "set (firstFields childNodes u) \<subseteq> set (firstFields cn1 u)"
    using addChild_firstFields [OF add, of u] by auto
  show ?case
  proof (cases added)
    case False
    with res dom fn add have "findChildNodesLoop d typeName rest cn1 = Inr cn'"
      by (simp add: findChildNodesLoop.psimps)
    from "3.IH"(1) [OF fn add [symmetric] False this] step show ?thesis by blast
  next
    case True
    from res dom fn add True obtain typeNode fieldTypeName cn2 where
      tn: "FieldDefinitionTypeNode d fieldRef = Inr typeNode"
      and nn: "NodeNameString d typeNode = Inr fieldTypeName"
      and w: "findChildNodesForType d fieldTypeName cn1 = Inr cn2"
      and l: "findChildNodesLoop d typeName rest cn2 = Inr cn'"
      by (auto simp: findChildNodesLoop.psimps split: sum.splits)
    have nn': "\<not> \<not> added" using True by simp
    from "3.IH"(2) [OF fn add [symmetric] nn' tn nn w]
    have a: "set (firstFields cn1 u) \<subseteq> set (firstFields cn2 u)" .
    from "3.IH"(3) [OF fn add [symmetric] nn' tn nn w l]
    have b: "set (firstFields cn2 u) \<subseteq> set (firstFields cn' u)" .
    from step a b show ?thesis by blast
  qed
qed

lemma pending_known_type:
  "FirstNodeByNameStr (Index d) t = Some n \<Longrightarrow> pending d {t} cn = pending d {} cn"
proof -
  assume "FirstNodeByNameStr (Index d) t = Some n"
  then have "(t, n) \<in> set (nodes (Index d))"
    by (simp add: FirstNodeByNameStr_def map_of_SomeD)
  then have "t \<in> fst ` set (nodes (Index d))" by force
  then show ?thesis by (auto simp: pending_def)
qed

lemma pending_mono:
  assumes "\<And>u. set (firstFields cn u) \<subseteq> set (firstFields cn' u)" and "finite X"
  shows "card (pending d X cn') \<le> card (pending d X cn)"
proof -
  have "pending d X cn' \<subseteq> pending d X cn"
    using assms(1) by (auto simp: pending_def)
  with finite_pending [OF assms(2)] show ?thesis by (rule card_mono)
qed

lemma FieldDefinitionNameString_in_table:
  "FieldDefinitionNameString d ref = Inr f \<Longrightarrow> f \<in> fd_Name ` set (FieldDefinitions d)"
  by (auto simp: FieldDefinitionNameString_def at_def split: if_splits)

lemma pending_added:
  assumes fn: "FieldDefinitionNameString d ref = Inr f"
    and add: "addChildTypeFieldName t f cn = (True, cn')"
  shows "card (pending d {} cn') < card (pending d {t} cn)"
proof -
  have new: "f \<notin> set (firstFields cn t)"
    using addChild_added_iff [OF add] by simp
  have ff: "\<And>u. set (firstFields cn u) \<subseteq> set (firstFields cn' u)"
    using addChild_firstFields [OF add] by auto
  have "(t, f) \<in> pending d {t} cn"
    using new FieldDefinitionNameString_in_table [OF fn] by (simp add: pending_def)
  moreover have "(t, f) \<notin> pending d {} cn'"
    using addChild_firstFields [OF add, of t] by (simp add: pending_def)
  moreover have "pending d {} cn' \<subseteq> pending d {t} cn"
    using ff by (auto simp: pending_def)
  ultimately have "pending d {} cn' \<subset> pending d {t} cn" by blast
  then show ?thesis
    by (rule psubset_card_mono [OF finite_pending, rotated]) simp
qed

text \<open>
  The walk terminates on every document and from every list of records: a recursive call is
  made only after a new pair has been registered, and the calls of the loop after it start
  from a list that has lost none.
\<close>

termination findChildNodesForType
proof (relation "measures [walkMeasure1, walkMeasure2, walkMeasure3]", goal_cases)
  case 1
  show ?case by simp
next
  case (2 d typeName childNodes node fieldsRefs)
  then show ?case
    by (simp add: walkMeasure1_def walkMeasure2_def pending_known_type)
next
  case (3 d typeName fieldRef rest childNodes fieldName added cn1)
  then have "cn1 = childNodes"
    using addChild_not_added [of typeName fieldName childNodes cn1] by simp
  then show ?case
    by (simp add: walkMeasure1_def walkMeasure2_def walkMeasure3_def)
next
  case (4 d typeName fieldRef rest childNodes fieldName added cn1 typeNode fieldTypeName)
  then have "addChildTypeFieldName typeName fieldName childNodes = (True, cn1)" by simp
  from pending_added [OF 4(1) this] show ?case
    by (simp add: walkMeasure1_def)
next
  case (5 d typeName fieldRef rest childNodes fieldName added cn1 typeNode fieldTypeName cn2)
  then have add: "addChildTypeFieldName typeName fieldName childNodes = (True, cn1)" by simp
  have "\<And>u. set (firstFields childNodes u) \<subseteq> set (firstFields cn2 u)"
    using addChild_firstFields [OF add] walk_grows_dom(1) [OF 5(7) 5(6)] by fastforce
  from pending_mono [OF this, of "{typeName}" d] show ?case
    by (auto simp: walkMeasure1_def walkMeasure2_def walkMeasure3_def)
qed

section \<open>The memory and the root set\<close>

lemma baseSchema_total:
  "deref m (document r) = Inr d \<Longrightarrow> \<exists>p m'. baseSchema res r m = Inr (p, m')"
  by (auto simp: baseSchema_def deref_def alloc_def assign_def Let_def
      split: option.splits prod.splits if_splits)

lemma baseSchema_result:
  assumes "baseSchema res r m = Inr (p, m')" and "deref m (document r) = Inr d"
  shows "\<exists>ext. heap m' = heap m @ ext"
    and "baseSchemaCalls m' = Suc (baseSchemaCalls m)"
    and "p = None \<Longrightarrow> baseSchemaDocument res d = None"
    and "p = Some a \<Longrightarrow> \<exists>base. deref m' a = Inr base \<and> baseSchemaDocument res d = Some base"
  using assms
  by (auto simp: baseSchema_def baseSchemaDocument_def deref_def alloc_def assign_def Let_def
      nth_append split: option.splits prod.splits if_splits)

lemma deref_extend:
  "deref m p = Inr d \<Longrightarrow> heap m' = heap m @ ext \<Longrightarrow> deref m' p = Inr d"
  by (auto simp: deref_def nth_append split: if_splits)

lemma isRootNode_result:
  assumes bs: "baseSchema res r m = Inr (p, m')" and d: "deref m (document r) = Inr d"
  shows "isRootNode m' d astNode p typeName =
           map_sum id (\<lambda>entity. entity \<or> isRootOperationType res d typeName) (isEntity d astNode)"
proof (cases p)
  case None
  from baseSchema_result(3) [OF bs d None] show ?thesis
    by (cases "isEntity d astNode") (simp_all add: isRootNode_def isRootOperationType_def None)
next
  case (Some a)
  from baseSchema_result(4) [OF bs d Some] obtain base where
    "deref m' a = Inr base" "baseSchemaDocument res d = Some base" by blast
  then show ?thesis
    by (cases "isEntity d astNode") (simp_all add: isRootNode_def isRootOperationType_def Some)
qed

lemma addRootNodes_result:
  assumes add: "addRootNodes res r astNode rn m = Inr (rn', m')"
    and d: "deref m (document r) = Inr d"
  shows "\<exists>ext. heap m' = heap m @ ext"
    and "baseSchemaCalls m' = Suc (baseSchemaCalls m)"
    and "\<exists>es. rootNodeEntry res d astNode = Inr es \<and> rn' = rn @ es"
proof -
  from baseSchema_total [OF d] obtain p m1 where bs: "baseSchema res r m = Inr (p, m1)" by blast
  from baseSchema_result(1) [OF bs d] obtain ext where ext: "heap m1 = heap m @ ext" ..
  have d1: "deref m1 (document r) = Inr d" by (rule deref_extend [OF d ext])
  note ir = isRootNode_result [OF bs d, of astNode]
  from add d bs d1 have m': "m' = m1"
    by (auto simp: addRootNodes_def ir split: sum.splits if_splits)
  show "\<exists>ext. heap m' = heap m @ ext" using ext m' by blast
  show "baseSchemaCalls m' = Suc (baseSchemaCalls m)"
    using baseSchema_result(2) [OF bs d] m' by simp
  show "\<exists>es. rootNodeEntry res d astNode = Inr es \<and> rn' = rn @ es"
    using add d bs d1
    by (auto simp: addRootNodes_def rootNodeEntry_def ir map_sum_def split: sum.splits if_splits)
qed

lemma addRootNodes_total:
  assumes d: "deref m (document r) = Inr d" and e: "rootNodeEntry res d astNode = Inr es"
  shows "\<exists>m'. addRootNodes res r astNode rn m = Inr (rn @ es, m')"
proof -
  from baseSchema_total [OF d] obtain p m1 where bs: "baseSchema res r m = Inr (p, m1)" by blast
  from baseSchema_result(1) [OF bs d] obtain ext where ext: "heap m1 = heap m @ ext" ..
  have d1: "deref m1 (document r) = Inr d" by (rule deref_extend [OF d ext])
  note ir = isRootNode_result [OF bs d, of astNode]
  show ?thesis using e d bs d1
    by (auto simp: addRootNodes_def rootNodeEntry_def ir map_sum_def split: sum.splits if_splits)
qed

lemma getAllRootNodesLoop_result:
  assumes "getAllRootNodesLoop res r astNodes rn m = Inr (rn', m')"
    and "deref m (document r) = Inr d"
  shows "(\<exists>ext. heap m' = heap m @ ext)
       \<and> baseSchemaCalls m' = baseSchemaCalls m + length (filter isObjectTypeNode astNodes)
       \<and> (\<exists>es. rootEntries res d astNodes = Inr es \<and> rn' = rn @ es)"
  using assms
proof (induction astNodes arbitrary: rn m)
  case Nil
  then show ?case by simp
next
  case (Cons astNode rest)
  show ?case
  proof (cases "isObjectTypeNode astNode")
    case False
    with Cons.prems have "getAllRootNodesLoop res r rest rn m = Inr (rn', m')"
      by (simp add: isObjectTypeNode_def)
    from Cons.IH [OF this Cons.prems(2)] False show ?thesis by simp
  next
    case True
    with Cons.prems(1) obtain rn1 m1 where
      a: "addRootNodes res r astNode rn m = Inr (rn1, m1)"
      and l: "getAllRootNodesLoop res r rest rn1 m1 = Inr (rn', m')"
      by (auto simp: isObjectTypeNode_def split: sum.splits)
    note ar = addRootNodes_result [OF a Cons.prems(2)]
    from ar(1) obtain ext where ext: "heap m1 = heap m @ ext" ..
    have d1: "deref m1 (document r) = Inr d" by (rule deref_extend [OF Cons.prems(2) ext])
    from ar(3) obtain es where es: "rootNodeEntry res d astNode = Inr es" "rn1 = rn @ es"
      by blast
    from Cons.IH [OF l d1] obtain ext' es' where
      "heap m' = heap m1 @ ext'"
      "baseSchemaCalls m' = baseSchemaCalls m1 + length (filter isObjectTypeNode rest)"
      "rootEntries res d rest = Inr es'" "rn' = rn1 @ es'"
      by blast
    with ext ar(2) es True show ?thesis by simp
  qed
qed

lemma getAllRootNodesLoop_total:
  assumes "rootEntries res d astNodes = Inr es" and "deref m (document r) = Inr d"
  shows "\<exists>m'. getAllRootNodesLoop res r astNodes rn m = Inr (rn @ es, m')"
  using assms
proof (induction astNodes arbitrary: rn m es)
  case Nil
  then show ?case by simp
next
  case (Cons astNode rest)
  show ?case
  proof (cases "isObjectTypeNode astNode")
    case False
    with Cons.prems(1) have "rootEntries res d rest = Inr es" by simp
    from Cons.IH [OF this Cons.prems(2)] False show ?thesis
      by (simp add: isObjectTypeNode_def)
  next
    case True
    with Cons.prems(1) obtain es1 es2 where
      e1: "rootNodeEntry res d astNode = Inr es1"
      and e2: "rootEntries res d rest = Inr es2" and es: "es = es1 @ es2"
      by (auto split: sum.splits)
    from addRootNodes_total [OF Cons.prems(2) e1] obtain m1 where
      a: "addRootNodes res r astNode rn m = Inr (rn @ es1, m1)" ..
    from addRootNodes_result(1) [OF a Cons.prems(2)] obtain ext where "heap m1 = heap m @ ext" ..
    then have d1: "deref m1 (document r) = Inr d" by (rule deref_extend [OF Cons.prems(2)])
    from Cons.IH [OF e2 d1, of "rn @ es1"] a True es show ?thesis
      by (simp add: isObjectTypeNode_def)
  qed
qed

text \<open>
  What \<^verbatim>\<open>GetAllNodes\<close> returns, in terms of the document \<open>d\<close> the extractor points to:
  the root set is \<open>rootEntries\<close> of its top-level nodes, the child set is collected from
  that root set in the same document, and the memory has only grown.
\<close>

lemma GetAllNodes_result:
  assumes "GetAllNodes res r m = Inr ((rootNodes, childNodes), m')"
  shows "\<exists>d ext. deref m (document r) = Inr d \<and> heap m' = heap m @ ext
           \<and> baseSchemaCalls m' = baseSchemaCalls m + length (filter isObjectTypeNode (RootNodes d))
           \<and> rootEntries res d (RootNodes d) = Inr rootNodes
           \<and> getAllChildNodes d rootNodes = Inr childNodes"
proof -
  from assms obtain d where d: "deref m (document r) = Inr d"
    by (cases "deref m (document r)") (auto simp: GetAllNodes_def getAllRootNodes_def)
  with assms obtain m1 where
    l: "getAllRootNodesLoop res r (RootNodes d) [] m = Inr (rootNodes, m1)"
    by (auto simp: GetAllNodes_def getAllRootNodes_def split: sum.splits)
  from getAllRootNodesLoop_result [OF l d] obtain ext where
    ext: "heap m1 = heap m @ ext"
    and calls: "baseSchemaCalls m1 = baseSchemaCalls m + length (filter isObjectTypeNode (RootNodes d))"
    and es: "rootEntries res d (RootNodes d) = Inr rootNodes"
    by auto
  have d1: "deref m1 (document r) = Inr d" by (rule deref_extend [OF d ext])
  from assms d l d1 have "m' = m1" "getAllChildNodes d rootNodes = Inr childNodes"
    by (auto simp: GetAllNodes_def getAllRootNodes_def split: sum.splits)
  with d ext calls es show ?thesis by blast
qed

lemma GetAllNodes_result_at:
  assumes "GetAllNodes res r m = Inr ((rootNodes, childNodes), m')"
    and "deref m (document r) = Inr d"
  shows "baseSchemaCalls m' = baseSchemaCalls m + length (filter isObjectTypeNode (RootNodes d))"
    and "rootEntries res d (RootNodes d) = Inr rootNodes"
    and "getAllChildNodes d rootNodes = Inr childNodes"
    and "\<exists>ext. heap m' = heap m @ ext"
  using GetAllNodes_result [OF assms(1)] assms(2) by auto

lemma rootNodeEntry_nonempty:
  "rootNodeEntry res d astNode = Inr es \<Longrightarrow> tf \<in> set es \<Longrightarrow> FieldNames tf \<noteq> []"
  by (auto simp: rootNodeEntry_def split: sum.splits if_splits)

lemma rootEntries_nonempty:
  "rootEntries res d astNodes = Inr es \<Longrightarrow> tf \<in> set es \<Longrightarrow> FieldNames tf \<noteq> []"
proof (induction astNodes arbitrary: es)
  case Nil
  then show ?case by simp
next
  case (Cons astNode rest)
  then show ?case
    by (auto split: if_splits sum.splits dest: rootNodeEntry_nonempty)
qed

lemma FieldDefinitionNameString_Inr:
  "FieldDefinitionNameString d ref = Inr f \<longleftrightarrow>
     ref < length (FieldDefinitions d) \<and> f = fd_Name (FieldDefinitions d ! ref)"
  by (auto simp: FieldDefinitionNameString_def at_def)

lemma rootFieldNames_result:
  "rootFieldNames d refs acc = Inr names \<Longrightarrow>
     names = acc @ localFieldNames d refs \<and> (\<forall>ref \<in> set refs. ref < length (FieldDefinitions d))"
proof (induction refs arbitrary: acc)
  case Nil
  then show ?case by (simp add: localFieldNames_def)
next
  case (Cons fieldRef rest)
  from Cons.prems obtain external where
    ext: "FieldDefinitionHasNamedDirective d fieldRef federationExternalDirectiveName = Inr external"
    by (cases "FieldDefinitionHasNamedDirective d fieldRef federationExternalDirectiveName") auto
  then have inrange: "fieldRef < length (FieldDefinitions d)"
    by (auto simp: FieldDefinitionHasNamedDirective_def at_def split: if_splits)
  show ?case
  proof (cases external)
    case True
    with Cons.prems ext have "rootFieldNames d rest acc = Inr names" by simp
    from Cons.IH [OF this] True ext inrange show ?thesis
      by (simp add: localFieldNames_def isExternalField_def)
  next
    case False
    with Cons.prems ext inrange have
      "rootFieldNames d rest (acc @ [fd_Name (FieldDefinitions d ! fieldRef)]) = Inr names"
      by (auto simp: FieldDefinitionNameString_Inr split: sum.splits)
    from Cons.IH [OF this] False ext inrange show ?thesis
      by (simp add: localFieldNames_def isExternalField_def)
  qed
qed

text \<open>The record of a node, when there is one, in terms of the node.\<close>

lemma rootNodeEntry_record:
  assumes "rootNodeEntry res d astNode = Inr es" and "tf \<in> set es"
  shows "\<exists>entity fieldRefs.
           es = [tf] \<and> NodeNameString d astNode = Inr (TypeName tf)
         \<and> isEntity d astNode = Inr entity
         \<and> (entity \<or> isRootOperationType res d (TypeName tf))
         \<and> NodeFieldDefinitions d astNode = Inr fieldRefs
         \<and> (\<forall>ref \<in> set fieldRefs. ref < length (FieldDefinitions d))
         \<and> FieldNames tf = localFieldNames d fieldRefs"
  using assms
  by (auto simp: rootNodeEntry_def split: sum.splits if_splits dest!: rootFieldNames_result)

lemma rootEntries_record:
  assumes "rootEntries res d astNodes = Inr es" and "tf \<in> set es"
  shows "\<exists>astNode \<in> set astNodes. isObjectTypeNode astNode \<and> rootNodeEntry res d astNode = Inr [tf]"
  using assms
proof (induction astNodes arbitrary: es)
  case Nil
  then show ?case by simp
next
  case (Cons astNode rest)
  show ?case
  proof (cases "isObjectTypeNode astNode")
    case False
    with Cons show ?thesis by auto
  next
    case True
    with Cons.prems(1) obtain es1 es2 where
      e1: "rootNodeEntry res d astNode = Inr es1"
      and e2: "rootEntries res d rest = Inr es2" and es: "es = es1 @ es2"
      by (auto split: sum.splits)
    from Cons.prems(2) es consider "tf \<in> set es1" | "tf \<in> set es2" by auto
    then show ?thesis
    proof cases
      case 1
      from rootNodeEntry_record [OF e1 1] have "es1 = [tf]" by blast
      with e1 True show ?thesis by simp
    next
      case 2
      from Cons.IH [OF e2 2] show ?thesis by auto
    qed
  qed
qed

lemma rootEntries_TypeNames:
  assumes "rootEntries res d astNodes = Inr es"
    and "distinct (map (NodeNameString d) (filter isObjectTypeNode astNodes))"
  shows "distinct (map TypeName es)"
  using assms
proof (induction astNodes arbitrary: es)
  case Nil
  then show ?case by simp
next
  case (Cons astNode rest)
  show ?case
  proof (cases "isObjectTypeNode astNode")
    case False
    with Cons show ?thesis by auto
  next
    case True
    with Cons.prems(1) obtain es1 es2 where
      e1: "rootNodeEntry res d astNode = Inr es1"
      and e2: "rootEntries res d rest = Inr es2" and es: "es = es1 @ es2"
      by (auto split: sum.splits)
    from Cons.prems(2) True have dr: "distinct (map (NodeNameString d) (filter isObjectTypeNode rest))"
      and new: "NodeNameString d astNode \<notin> NodeNameString d ` set (filter isObjectTypeNode rest)"
      by auto
    from Cons.IH [OF e2 dr] have d2: "distinct (map TypeName es2)" .
    show ?thesis
    proof (cases es1)
      case Nil
      with d2 es show ?thesis by simp
    next
      case (Cons tf more)
      then have "tf \<in> set es1" by simp
      from rootNodeEntry_record [OF e1 this] have one: "es1 = [tf]"
        and nm: "NodeNameString d astNode = Inr (TypeName tf)" by blast+
      have "TypeName tf \<notin> TypeName ` set es2"
      proof
        assume "TypeName tf \<in> TypeName ` set es2"
        then obtain tf2 where tf2: "tf2 \<in> set es2" "TypeName tf2 = TypeName tf" by auto
        from rootEntries_record [OF e2 tf2(1)] obtain n2 where
          n2: "n2 \<in> set rest" "isObjectTypeNode n2" "rootNodeEntry res d n2 = Inr [tf2]" by blast
        from rootNodeEntry_record [OF n2(3), of tf2] have "NodeNameString d n2 = Inr (TypeName tf2)"
          by simp
        with tf2(2) nm n2(1,2) new show False by force
      qed
      with d2 es one show ?thesis by simp
    qed
  qed
qed

lemma localFieldNames_distinct:
  assumes "distinct (map (FieldDefinitionNameString d) refs)"
    and "\<forall>ref \<in> set refs. ref < length (FieldDefinitions d)"
  shows "distinct (localFieldNames d refs)"
proof -
  have eq: "\<And>ref. ref \<in> set refs \<Longrightarrow>
      FieldDefinitionNameString d ref = Inr (fd_Name (FieldDefinitions d ! ref))"
    using assms(2) by (simp add: FieldDefinitionNameString_Inr)
  have "map (FieldDefinitionNameString d) refs = map (\<lambda>ref. Inr (fd_Name (FieldDefinitions d ! ref))) refs"
    using eq by simp
  with assms(1) have "distinct (map (\<lambda>ref. fd_Name (FieldDefinitions d ! ref)) refs)"
    by (simp add: distinct_map inj_on_def)
  then show ?thesis
    unfolding localFieldNames_def by (rule distinct_map_filter)
qed

lemma localFieldNames_nonempty:
  "localFieldNames d refs \<noteq> [] \<Longrightarrow> \<exists>ref. ref \<in> set refs"
  by (cases refs) (auto simp: localFieldNames_def)

lemma rootEntries_member:
  assumes "rootEntries res d astNodes = Inr es"
    and "astNode \<in> set astNodes" and "isObjectTypeNode astNode"
    and "rootNodeEntry res d astNode = Inr [tf]"
  shows "tf \<in> set es"
  using assms(1,2)
proof (induction astNodes arbitrary: es)
  case Nil
  then show ?case by simp
next
  case (Cons n rest)
  show ?case
  proof (cases "isObjectTypeNode n")
    case False
    with Cons assms(3) show ?thesis by auto
  next
    case True
    with Cons.prems(1) obtain es1 es2 where
      e1: "rootNodeEntry res d n = Inr es1"
      and e2: "rootEntries res d rest = Inr es2" and es: "es = es1 @ es2"
      by (auto split: sum.splits)
    show ?thesis
    proof (cases "astNode = n")
      case True
      with e1 assms(4) es show ?thesis by simp
    next
      case False
      with Cons.prems(2) have "astNode \<in> set rest" by simp
      from Cons.IH [OF e2 this] es show ?thesis by simp
    qed
  qed
qed

section \<open>Invariants of the child walk\<close>

text \<open>
  The child walk changes the list of records only through \<^verbatim>\<open>addChildTypeFieldName\<close>,
  so whatever one registration preserves holds of the child set, which starts empty.
\<close>

lemma walk_preserves:
  assumes step: "\<And>t f cn added cn'. P cn \<Longrightarrow> addChildTypeFieldName t f cn = (added, cn') \<Longrightarrow> P cn'"
  shows "P cn \<Longrightarrow> findChildNodesForType d t cn = Inr cn' \<Longrightarrow> P cn'"
    and "P cn \<Longrightarrow> findChildNodesLoop d t refs cn = Inr cn' \<Longrightarrow> P cn'"
proof (induction d t cn and d t refs cn arbitrary: cn' and cn'
    rule: findChildNodesForType_findChildNodesLoop.induct)
  case (1 d typeName childNodes)
  then show ?case by (auto split: option.splits sum.splits)
next
  case (2 d typeName childNodes)
  then show ?case by simp
next
  case (3 d typeName fieldRef rest childNodes)
  from "3.prems"(2) obtain fieldName where fn: "FieldDefinitionNameString d fieldRef = Inr fieldName"
    by (cases "FieldDefinitionNameString d fieldRef") auto
  obtain added cn1 where add: "addChildTypeFieldName typeName fieldName childNodes = (added, cn1)"
    by (cases "addChildTypeFieldName typeName fieldName childNodes") auto
  have p1: "P cn1" by (rule step [OF "3.prems"(1) add])
  show ?case
  proof (cases added)
    case False
    with "3.prems"(2) fn add have "findChildNodesLoop d typeName rest cn1 = Inr cn'" by simp
    from "3.IH"(1) [OF fn add [symmetric] False p1 this] show ?thesis .
  next
    case True
    from "3.prems"(2) fn add True obtain typeNode fieldTypeName cn2 where
      tn: "FieldDefinitionTypeNode d fieldRef = Inr typeNode"
      and nn: "NodeNameString d typeNode = Inr fieldTypeName"
      and w: "findChildNodesForType d fieldTypeName cn1 = Inr cn2"
      and l: "findChildNodesLoop d typeName rest cn2 = Inr cn'"
      by (auto split: sum.splits)
    have nn': "\<not> \<not> added" using True by simp
    from "3.IH"(2) [OF fn add [symmetric] nn' tn nn p1 w] have p2: "P cn2" .
    from "3.IH"(3) [OF fn add [symmetric] nn' tn nn w p2 l] show ?thesis .
  qed
qed

lemma childNodesOfRootFields_preserves:
  assumes step: "\<And>t f cn added cn'. P cn \<Longrightarrow> addChildTypeFieldName t f cn = (added, cn') \<Longrightarrow> P cn'"
  shows "P cn \<Longrightarrow> childNodesOfRootFields d fm names cn = Inr cn' \<Longrightarrow> P cn'"
proof (induction names arbitrary: cn)
  case Nil
  then show ?case by simp
next
  case (Cons fieldName rest)
  from Cons.prems(2) obtain cn1 where
    a: "childNodesOfRootField d fm fieldName cn = Inr cn1"
    and b: "childNodesOfRootFields d fm rest cn1 = Inr cn'"
    by (auto split: sum.splits)
  from a obtain t where "findChildNodesForType d t cn = Inr cn1"
    by (auto simp: childNodesOfRootField_def Let_def split: sum.splits)
  from walk_preserves(1) [of P, OF step Cons.prems(1) this] have "P cn1" .
  from Cons.IH [OF this b] show ?case .
qed

lemma getAllChildNodesLoop_preserves:
  assumes step: "\<And>t f cn added cn'. P cn \<Longrightarrow> addChildTypeFieldName t f cn = (added, cn') \<Longrightarrow> P cn'"
  shows "P cn \<Longrightarrow> getAllChildNodesLoop d roots cn = Inr cn' \<Longrightarrow> P cn'"
proof (induction roots arbitrary: cn)
  case Nil
  then show ?case by simp
next
  case (Cons rootNode rest)
  show ?case
  proof (cases "FirstNodeByNameStr (Index d) (TypeName rootNode)")
    case None
    with Cons show ?thesis by simp
  next
    case (Some node)
    with Cons.prems(2) obtain fm cn1 where
      a: "childNodesOfRootFields d fm (FieldNames rootNode) cn = Inr cn1"
      and b: "getAllChildNodesLoop d rest cn1 = Inr cn'"
      by (auto split: sum.splits)
    from childNodesOfRootFields_preserves [of P, OF step Cons.prems(1) a] have "P cn1" .
    from Cons.IH [OF this b] show ?thesis .
  qed
qed

lemma getAllChildNodes_invariant:
  assumes step: "\<And>t f cn added cn'. P cn \<Longrightarrow> addChildTypeFieldName t f cn = (added, cn') \<Longrightarrow> P cn'"
    and "P []" and "getAllChildNodes d roots = Inr cn'"
  shows "P cn'"
  using getAllChildNodesLoop_preserves [of P, OF step assms(2)] assms(3)
  by (simp add: getAllChildNodes_def)

lemma addChild_TypeNames:
  "addChildTypeFieldName t f cn = (added, cn') \<Longrightarrow>
     map TypeName cn' = (if t \<in> set (map TypeName cn) then map TypeName cn else map TypeName cn @ [t])"
  by (induction cn arbitrary: added cn') (auto split: if_splits prod.splits)

lemma addChild_distinct_TypeNames:
  "distinct (map TypeName cn) \<Longrightarrow> addChildTypeFieldName t f cn = (added, cn')
     \<Longrightarrow> distinct (map TypeName cn')"
  using addChild_TypeNames [of t f cn added cn'] by (auto split: if_splits)

lemma addChild_distinct_FieldNames:
  "\<forall>tf \<in> set cn. distinct (FieldNames tf) \<Longrightarrow> addChildTypeFieldName t f cn = (added, cn')
     \<Longrightarrow> \<forall>tf \<in> set cn'. distinct (FieldNames tf)"
  by (induction cn arbitrary: added cn') (auto split: if_splits prod.splits)

lemma addChild_nonempty_FieldNames:
  "\<forall>tf \<in> set cn. FieldNames tf \<noteq> [] \<Longrightarrow> addChildTypeFieldName t f cn = (added, cn')
     \<Longrightarrow> \<forall>tf \<in> set cn'. FieldNames tf \<noteq> []"
  by (induction cn arbitrary: added cn') (auto split: if_splits prod.splits)

lemma walk_grows:
  assumes "findChildNodesForType d t cn = Inr cn'"
  shows "set (firstFields cn u) \<subseteq> set (firstFields cn' u)"
proof -
  have "set (firstFields cn u) \<subseteq> set (firstFields cn u)" by simp
  from walk_preserves(1) [where P = "\<lambda>c. set (firstFields cn u) \<subseteq> set (firstFields c u)",
      OF _ this assms]
  show ?thesis using addChild_firstFields by fastforce
qed

lemma loop_grows:
  assumes "findChildNodesLoop d t refs cn = Inr cn'"
  shows "set (firstFields cn u) \<subseteq> set (firstFields cn' u)"
proof -
  have "set (firstFields cn u) \<subseteq> set (firstFields cn u)" by simp
  from walk_preserves(2) [where P = "\<lambda>c. set (firstFields cn u) \<subseteq> set (firstFields c u)",
      OF _ this assms]
  show ?thesis using addChild_firstFields by fastforce
qed

lemma childNodesOfRootFields_preserves_walk:
  assumes step: "\<And>t cn cn'. P cn \<Longrightarrow> findChildNodesForType d t cn = Inr cn' \<Longrightarrow> P cn'"
  shows "P cn \<Longrightarrow> childNodesOfRootFields d fm names cn = Inr cn' \<Longrightarrow> P cn'"
proof (induction names arbitrary: cn)
  case Nil
  then show ?case by simp
next
  case (Cons fieldName rest)
  from Cons.prems(2) obtain cn1 where
    a: "childNodesOfRootField d fm fieldName cn = Inr cn1"
    and b: "childNodesOfRootFields d fm rest cn1 = Inr cn'"
    by (auto split: sum.splits)
  from a obtain t where "findChildNodesForType d t cn = Inr cn1"
    by (auto simp: childNodesOfRootField_def Let_def split: sum.splits)
  from step [OF Cons.prems(1) this] have "P cn1" .
  from Cons.IH [OF this b] show ?case .
qed

lemma getAllChildNodes_invariant_walk:
  assumes step: "\<And>t cn cn'. P cn \<Longrightarrow> findChildNodesForType d t cn = Inr cn' \<Longrightarrow> P cn'"
    and "P []" and "getAllChildNodes d roots = Inr cn'"
  shows "P cn'"
proof -
  have "P cn \<Longrightarrow> getAllChildNodesLoop d roots cn = Inr cn' \<Longrightarrow> P cn'" for cn
  proof (induction roots arbitrary: cn)
    case Nil
    then show ?case by simp
  next
    case (Cons rootNode rest)
    show ?case
    proof (cases "FirstNodeByNameStr (Index d) (TypeName rootNode)")
      case None
      with Cons show ?thesis by simp
    next
      case (Some node)
      with Cons.prems(2) obtain fm cn1 where
        a: "childNodesOfRootFields d fm (FieldNames rootNode) cn = Inr cn1"
        and b: "getAllChildNodesLoop d rest cn1 = Inr cn'"
        by (auto split: sum.splits)
      from childNodesOfRootFields_preserves_walk [of P, OF step Cons.prems(1) a] have "P cn1" .
      from Cons.IH [OF this b] show ?thesis .
    qed
  qed
  from this [OF assms(2)] assms(3) show ?thesis by (simp add: getAllChildNodes_def)
qed

lemma childNodesOfRootFields_grows:
  assumes "childNodesOfRootFields d fm names cn = Inr cn'"
  shows "set (firstFields cn u) \<subseteq> set (firstFields cn' u)"
proof -
  have "set (firstFields cn u) \<subseteq> set (firstFields cn u)" by simp
  from childNodesOfRootFields_preserves
    [where P = "\<lambda>c. set (firstFields cn u) \<subseteq> set (firstFields c u)", OF _ this assms]
  show ?thesis using addChild_firstFields by fastforce
qed

lemma getAllChildNodesLoop_grows:
  assumes "getAllChildNodesLoop d roots cn = Inr cn'"
  shows "set (firstFields cn u) \<subseteq> set (firstFields cn' u)"
proof -
  have "set (firstFields cn u) \<subseteq> set (firstFields cn u)" by simp
  from getAllChildNodesLoop_preserves
    [where P = "\<lambda>c. set (firstFields cn u) \<subseteq> set (firstFields c u)", OF _ this assms]
  show ?thesis using addChild_firstFields by fastforce
qed

section \<open>Well-formed documents do not panic\<close>

lemma hasDirectiveNamed_total:
  "list_all (\<lambda>ref. ref < length (Directives d)) refs \<Longrightarrow> \<exists>b. hasDirectiveNamed d name refs = Inr b"
  by (induction refs) (auto simp: DirectiveNameString_def at_def)

lemma wf_node_lookups:
  assumes "wf_document d" and "wf_node d node"
  shows "\<exists>name. NodeNameString d node = Inr name"
    and "\<exists>refs. NodeFieldDefinitions d node = Inr refs
           \<and> list_all (\<lambda>ref. ref < length (FieldDefinitions d)) refs"
    and "\<exists>b. isEntity d node = Inr b"
proof -
  show "\<exists>name. NodeNameString d node = Inr name"
    using assms(2) by (auto simp: NodeNameString_def wf_node_def at_def)
  show "\<exists>refs. NodeFieldDefinitions d node = Inr refs
           \<and> list_all (\<lambda>ref. ref < length (FieldDefinitions d)) refs"
  proof (cases "Kind node = NodeKindUnknown \<or> \<not> Ref node < length (TypeDefinitions d)")
    case True
    with assms(2) show ?thesis by (auto simp: NodeFieldDefinitions_def wf_node_def)
  next
    case False
    then have "TypeDefinitions d ! Ref node \<in> set (TypeDefinitions d)" by simp
    with assms(1) have "list_all (\<lambda>ref. ref < length (FieldDefinitions d))
        (td_FieldsDefinition (TypeDefinitions d ! Ref node))"
      unfolding wf_document_def list_all_iff by blast
    with False show ?thesis by (auto simp: NodeFieldDefinitions_def at_def)
  qed
  show "\<exists>b. isEntity d node = Inr b"
  proof (cases "Kind node = NodeKindUnknown")
    case True
    then show ?thesis by (auto simp: isEntity_def NodeDirectives_def)
  next
    case False
    with assms(2) have r: "Ref node < length (TypeDefinitions d)" by (simp add: wf_node_def)
    then have "TypeDefinitions d ! Ref node \<in> set (TypeDefinitions d)" by simp
    with assms(1) have "list_all (\<lambda>ref. ref < length (Directives d))
        (td_Directives (TypeDefinitions d ! Ref node))"
      unfolding wf_document_def list_all_iff by blast
    from hasDirectiveNamed_total [OF this] False r show ?thesis
      by (simp add: isEntity_def NodeDirectives_def at_def)
  qed
qed

lemma wf_index_node:
  "wf_document d \<Longrightarrow> FirstNodeByNameStr (Index d) t = Some node \<Longrightarrow> wf_node d node"
  by (auto simp: wf_document_def FirstNodeByNameStr_def list_all_iff dest!: map_of_SomeD)

lemma wf_field_lookups:
  assumes "wf_document d" and "ref < length (FieldDefinitions d)"
  shows "\<exists>b. FieldDefinitionHasNamedDirective d ref name = Inr b"
    and "\<exists>f. FieldDefinitionNameString d ref = Inr f"
    and "\<exists>node t. FieldDefinitionTypeNode d ref = Inr node \<and> NodeNameString d node = Inr t"
proof -
  from assms(2) have "FieldDefinitions d ! ref \<in> set (FieldDefinitions d)" by simp
  with assms(1) have "list_all (\<lambda>r. r < length (Directives d)) (fd_Directives (FieldDefinitions d ! ref))"
    unfolding wf_document_def list_all_iff by blast
  from hasDirectiveNamed_total [OF this] assms(2)
  show "\<exists>b. FieldDefinitionHasNamedDirective d ref name = Inr b"
    by (simp add: FieldDefinitionHasNamedDirective_def at_def)
  show "\<exists>f. FieldDefinitionNameString d ref = Inr f"
    using assms(2) by (simp add: FieldDefinitionNameString_Inr)
  show "\<exists>node t. FieldDefinitionTypeNode d ref = Inr node \<and> NodeNameString d node = Inr t"
  proof (cases "FirstNodeByNameStr (Index d) (fd_Type (FieldDefinitions d ! ref))")
    case None
    with assms(2) show ?thesis
      by (simp add: FieldDefinitionTypeNode_def at_def NodeNameString_def)
  next
    case (Some node)
    from wf_node_lookups(1) [OF assms(1) wf_index_node [OF assms(1) Some]] Some assms(2)
    show ?thesis by (simp add: FieldDefinitionTypeNode_def at_def)
  qed
qed

lemma rootFieldNames_total:
  assumes "wf_document d"
  shows "list_all (\<lambda>ref. ref < length (FieldDefinitions d)) refs
           \<Longrightarrow> \<exists>names. rootFieldNames d refs acc = Inr names"
proof (induction refs arbitrary: acc)
  case Nil
  then show ?case by simp
next
  case (Cons ref rest)
  then have r: "ref < length (FieldDefinitions d)" by simp
  from wf_field_lookups(1) [OF assms r] obtain b where
    "FieldDefinitionHasNamedDirective d ref federationExternalDirectiveName = Inr b" ..
  moreover from wf_field_lookups(2) [OF assms r] obtain f where
    "FieldDefinitionNameString d ref = Inr f" ..
  ultimately show ?case using Cons.IH Cons.prems by (cases b) auto
qed

lemma rootNodeEntry_total:
  assumes "wf_document d" and "wf_node d astNode"
  shows "\<exists>es. rootNodeEntry res d astNode = Inr es"
proof -
  from wf_node_lookups [OF assms] obtain name refs b where
    "NodeNameString d astNode = Inr name" "NodeFieldDefinitions d astNode = Inr refs"
    "list_all (\<lambda>ref. ref < length (FieldDefinitions d)) refs" "isEntity d astNode = Inr b"
    by blast
  moreover from rootFieldNames_total [OF assms(1) this(3), of "[]"] obtain names where
    "rootFieldNames d refs [] = Inr names" ..
  ultimately show ?thesis by (simp add: rootNodeEntry_def)
qed

lemma rootEntries_total:
  assumes "wf_document d"
  shows "list_all (wf_node d) astNodes \<Longrightarrow> \<exists>es. rootEntries res d astNodes = Inr es"
proof (induction astNodes)
  case Nil
  then show ?case by simp
next
  case (Cons astNode rest)
  then obtain es' where "rootEntries res d rest = Inr es'" by auto
  moreover from Cons.prems rootNodeEntry_total [OF assms, of astNode res] obtain es where
    "rootNodeEntry res d astNode = Inr es" by auto
  ultimately show ?case by simp
qed

text \<open>On a well-formed document the walk does not panic.\<close>

lemma walk_total:
  shows "wf_document d \<Longrightarrow> \<exists>cn'. findChildNodesForType d t cn = Inr cn'"
    and "wf_document d \<Longrightarrow> list_all (\<lambda>ref. ref < length (FieldDefinitions d)) refs
           \<Longrightarrow> \<exists>cn'. findChildNodesLoop d t refs cn = Inr cn'"
proof (induction d t cn and d t refs cn rule: findChildNodesForType_findChildNodesLoop.induct)
  case (1 d typeName childNodes)
  show ?case
  proof (cases "FirstNodeByNameStr (Index d) typeName")
    case None
    then show ?thesis by simp
  next
    case (Some node)
    from wf_node_lookups(2) [OF "1.prems" wf_index_node [OF "1.prems" Some]] obtain refs where
      refs: "NodeFieldDefinitions d node = Inr refs"
        "list_all (\<lambda>ref. ref < length (FieldDefinitions d)) refs" by blast
    from "1.IH" [OF Some refs(1) "1.prems" refs(2)] Some refs(1) show ?thesis by simp
  qed
next
  case (2 d typeName childNodes)
  show ?case by simp
next
  case (3 d typeName fieldRef rest childNodes)
  from "3.prems"(2) have r: "fieldRef < length (FieldDefinitions d)"
    and rest: "list_all (\<lambda>ref. ref < length (FieldDefinitions d)) rest" by simp_all
  from wf_field_lookups(2) [OF "3.prems"(1) r] obtain fieldName where
    fn: "FieldDefinitionNameString d fieldRef = Inr fieldName" ..
  obtain added cn1 where add: "addChildTypeFieldName typeName fieldName childNodes = (added, cn1)"
    by (cases "addChildTypeFieldName typeName fieldName childNodes") auto
  show ?case
  proof (cases added)
    case False
    from "3.IH"(1) [OF fn add [symmetric] False "3.prems"(1) rest] fn add False
    show ?thesis by simp
  next
    case True
    have nn': "\<not> \<not> added" using True by simp
    from wf_field_lookups(3) [OF "3.prems"(1) r] obtain typeNode fieldTypeName where
      tn: "FieldDefinitionTypeNode d fieldRef = Inr typeNode"
      and nn: "NodeNameString d typeNode = Inr fieldTypeName" by blast
    from "3.IH"(2) [OF fn add [symmetric] nn' tn nn "3.prems"(1)] obtain cn2 where
      w: "findChildNodesForType d fieldTypeName cn1 = Inr cn2" ..
    from "3.IH"(3) [OF fn add [symmetric] nn' tn nn w "3.prems"(1) rest] obtain cn' where
      "findChildNodesLoop d typeName rest cn2 = Inr cn'" ..
    with fn add True tn nn w show ?thesis by simp
  qed
qed

lemma fieldNameToRefs_total:
  assumes "list_all (\<lambda>ref. ref < length (FieldDefinitions d)) refs"
    and "\<forall>f ref. fm f = Some ref \<longrightarrow> ref < length (FieldDefinitions d)"
  shows "\<exists>fm'. fieldNameToRefs d refs fm = Inr fm'
           \<and> (\<forall>f ref. fm' f = Some ref \<longrightarrow> ref < length (FieldDefinitions d))"
  using assms
proof (induction refs arbitrary: fm)
  case Nil
  then show ?case by simp
next
  case (Cons ref rest)
  then have r: "ref < length (FieldDefinitions d)" by simp
  let ?fm = "fm(fd_Name (FieldDefinitions d ! ref) \<mapsto> ref)"
  have "\<forall>f ref'. ?fm f = Some ref' \<longrightarrow> ref' < length (FieldDefinitions d)"
    using Cons.prems(2) r by auto
  moreover from Cons.prems(1) have "list_all (\<lambda>ref. ref < length (FieldDefinitions d)) rest"
    by simp
  ultimately obtain fm' where
    "fieldNameToRefs d rest ?fm = Inr fm'"
    "\<forall>f ref. fm' f = Some ref \<longrightarrow> ref < length (FieldDefinitions d)"
    using Cons.IH [of ?fm] by blast
  moreover have "FieldDefinitionNameString d ref = Inr (fd_Name (FieldDefinitions d ! ref))"
    using r by (simp add: FieldDefinitionNameString_Inr)
  ultimately show ?case by auto
qed

lemma mapIndex_in_range:
  assumes "\<forall>f ref. fm f = Some ref \<longrightarrow> ref < length (FieldDefinitions d)"
    and "FieldDefinitions d \<noteq> []"
  shows "mapIndex fm fieldName < length (FieldDefinitions d)"
  using assms by (auto simp: mapIndex_def split: option.splits)

lemma childNodesOfRootFields_total:
  assumes wf: "wf_document d"
    and fm: "\<forall>f ref. fm f = Some ref \<longrightarrow> ref < length (FieldDefinitions d)"
    and ne: "names = [] \<or> FieldDefinitions d \<noteq> []"
  shows "\<exists>cn'. childNodesOfRootFields d fm names cn = Inr cn'"
  using ne
proof (induction names arbitrary: cn)
  case Nil
  then show ?case by simp
next
  case (Cons fieldName rest)
  then have fds: "FieldDefinitions d \<noteq> []" by simp
  from wf_field_lookups(3) [OF wf mapIndex_in_range [OF fm fds, of fieldName]]
  obtain node t where
    "FieldDefinitionTypeNode d (mapIndex fm fieldName) = Inr node" "NodeNameString d node = Inr t"
    by blast
  moreover from walk_total(1) [OF wf, of t cn] obtain cn1 where
    "findChildNodesForType d t cn = Inr cn1" ..
  moreover from Cons.IH [of cn1] fds obtain cn' where
    "childNodesOfRootFields d fm rest cn1 = Inr cn'" by blast
  ultimately show ?case by (simp add: childNodesOfRootField_def)
qed

lemma getAllChildNodesLoop_total:
  assumes wf: "wf_document d"
  shows "(\<forall>tf \<in> set roots. FieldNames tf = []) \<or> FieldDefinitions d \<noteq> []
           \<Longrightarrow> \<exists>cn'. getAllChildNodesLoop d roots cn = Inr cn'"
proof (induction roots arbitrary: cn)
  case Nil
  then show ?case by simp
next
  case (Cons rootNode rest)
  then have rest: "(\<forall>tf \<in> set rest. FieldNames tf = []) \<or> FieldDefinitions d \<noteq> []"
    and this_one: "FieldNames rootNode = [] \<or> FieldDefinitions d \<noteq> []" by auto
  show ?case
  proof (cases "FirstNodeByNameStr (Index d) (TypeName rootNode)")
    case None
    with Cons.IH [OF rest] show ?thesis by simp
  next
    case (Some node)
    from wf_node_lookups(2) [OF wf wf_index_node [OF wf Some]] obtain refs where
      refs: "NodeFieldDefinitions d node = Inr refs"
        "list_all (\<lambda>ref. ref < length (FieldDefinitions d)) refs" by blast
    from fieldNameToRefs_total [OF refs(2), of Map.empty] obtain fm where
      fm: "fieldNameToRefs d refs Map.empty = Inr fm"
        "\<forall>f ref. fm f = Some ref \<longrightarrow> ref < length (FieldDefinitions d)" by auto
    from childNodesOfRootFields_total [OF wf fm(2) this_one, of cn] obtain cn1 where
      c: "childNodesOfRootFields d fm (FieldNames rootNode) cn = Inr cn1" ..
    from Cons.IH [OF rest, of cn1] obtain cn' where "getAllChildNodesLoop d rest cn1 = Inr cn'" ..
    with Some refs(1) fm(1) c show ?thesis by simp
  qed
qed

text \<open>On a well-formed document the extraction returns its two sets.\<close>

lemma GetAllNodes_total:
  assumes wf: "wf_document d" and d: "deref m (document r) = Inr d"
  shows "\<exists>rootNodes childNodes m'.
           GetAllNodes res r m = Inr ((rootNodes, childNodes), m')
         \<and> rootEntries res d (RootNodes d) = Inr rootNodes"
proof -
  from wf have "list_all (wf_node d) (RootNodes d)" by (simp add: wf_document_def)
  from rootEntries_total [OF wf this] obtain es where es: "rootEntries res d (RootNodes d) = Inr es" ..
  from getAllRootNodesLoop_total [OF es d, of "[]"] obtain m1 where
    l: "getAllRootNodesLoop res r (RootNodes d) [] m = Inr (es, m1)" by auto
  from getAllRootNodesLoop_result [OF l d] obtain ext where "heap m1 = heap m @ ext" by blast
  then have d1: "deref m1 (document r) = Inr d" by (rule deref_extend [OF d])
  have "(\<forall>tf \<in> set es. FieldNames tf = []) \<or> FieldDefinitions d \<noteq> []"
  proof (cases es)
    case Nil
    then show ?thesis by simp
  next
    case (Cons tf more)
    then have tf: "tf \<in> set es" by simp
    from rootEntries_record [OF es tf] obtain astNode where
      "rootNodeEntry res d astNode = Inr [tf]" by blast
    from rootNodeEntry_record [OF this, of tf] obtain refs where
      refs: "\<forall>ref \<in> set refs. ref < length (FieldDefinitions d)"
        "FieldNames tf = localFieldNames d refs" by auto
    from rootEntries_nonempty [OF es tf] refs(2) localFieldNames_nonempty [of d refs]
    obtain ref where "ref \<in> set refs" by auto
    with refs(1) show ?thesis by auto
  qed
  from getAllChildNodesLoop_total [OF wf this, of "[]"] obtain cn where
    "getAllChildNodes d es = Inr cn" by (auto simp: getAllChildNodes_def)
  with d l d1 es show ?thesis
    by (simp add: GetAllNodes_def getAllRootNodes_def)
qed

section \<open>What the child set records\<close>

lemma completeExcept_mono: "completeExcept d S cn \<Longrightarrow> S \<subseteq> S' \<Longrightarrow> completeExcept d S' cn"
  by (auto simp: completeExcept_def)

lemma completeExcept_addChild:
  assumes "completeExcept d S cn" and "addChildTypeFieldName t f cn = (added, cn')" and "t \<in> S"
  shows "completeExcept d S cn'"
  using assms(1,3) addChild_firstFields [OF assms(2)]
  by (auto simp: completeExcept_def completeAt_def)

text \<open>
  The walk of a type leaves the record of that type complete, and leaves complete every
  record that was; its loop registers the name of every field definition it passes.
\<close>

lemma walk_complete:
  shows "completeExcept d S cn \<Longrightarrow> findChildNodesForType d t cn = Inr cn'
           \<Longrightarrow> completeExcept d (S - {t}) cn'"
    and "completeExcept d (insert t S) cn \<Longrightarrow> findChildNodesLoop d t refs cn = Inr cn'
           \<Longrightarrow> completeExcept d (insert t S) cn'
             \<and> (\<forall>ref \<in> set refs. \<exists>f. FieldDefinitionNameString d ref = Inr f
                   \<and> f \<in> set (firstFields cn' t))"
proof (induction d t cn and d t refs cn arbitrary: cn' S and cn' S
    rule: findChildNodesForType_findChildNodesLoop.induct)
  case (1 d typeName childNodes)
  show ?case
  proof (cases "FirstNodeByNameStr (Index d) typeName")
    case None
    with "1.prems" have "cn' = childNodes" by simp
    moreover have "completeAt d childNodes typeName" using None by (simp add: completeAt_def)
    ultimately show ?thesis using "1.prems"(1) by (auto simp: completeExcept_def)
  next
    case (Some node)
    with "1.prems"(2) obtain refs where refs: "NodeFieldDefinitions d node = Inr refs"
      and l: "findChildNodesLoop d typeName refs childNodes = Inr cn'"
      by (auto split: sum.splits)
    have "completeExcept d (insert typeName S) childNodes"
      by (rule completeExcept_mono [OF "1.prems"(1)]) auto
    from "1.IH" [OF Some refs this l] have
      ce: "completeExcept d (insert typeName S) cn'"
      and all: "\<forall>ref \<in> set refs. \<exists>f. FieldDefinitionNameString d ref = Inr f
                   \<and> f \<in> set (firstFields cn' typeName)" by blast+
    from all Some refs have "completeAt d cn' typeName" by (auto simp: completeAt_def)
    with ce show ?thesis by (auto simp: completeExcept_def)
  qed
next
  case (2 d typeName childNodes)
  then show ?case by simp
next
  case (3 d typeName fieldRef rest childNodes)
  from "3.prems"(2) obtain fieldName where fn: "FieldDefinitionNameString d fieldRef = Inr fieldName"
    by (cases "FieldDefinitionNameString d fieldRef") auto
  obtain added cn1 where add: "addChildTypeFieldName typeName fieldName childNodes = (added, cn1)"
    by (cases "addChildTypeFieldName typeName fieldName childNodes") auto
  have ce1: "completeExcept d (insert typeName S) cn1"
    by (rule completeExcept_addChild [OF "3.prems"(1) add]) simp
  have in1: "fieldName \<in> set (firstFields cn1 typeName)"
    using addChild_firstFields [OF add, of typeName] addChild_added_iff [OF add] by auto
  show ?case
  proof (cases added)
    case False
    with "3.prems"(2) fn add have l: "findChildNodesLoop d typeName rest cn1 = Inr cn'" by simp
    from "3.IH"(1) [OF fn add [symmetric] False ce1 l] have
      ce: "completeExcept d (insert typeName S) cn'"
      and all: "\<forall>ref \<in> set rest. \<exists>f. FieldDefinitionNameString d ref = Inr f
                   \<and> f \<in> set (firstFields cn' typeName)" by blast+
    from in1 loop_grows [OF l, of typeName] have "fieldName \<in> set (firstFields cn' typeName)"
      by blast
    with ce all fn show ?thesis by auto
  next
    case True
    from "3.prems"(2) fn add True obtain typeNode fieldTypeName cn2 where
      tn: "FieldDefinitionTypeNode d fieldRef = Inr typeNode"
      and nn: "NodeNameString d typeNode = Inr fieldTypeName"
      and w: "findChildNodesForType d fieldTypeName cn1 = Inr cn2"
      and l: "findChildNodesLoop d typeName rest cn2 = Inr cn'"
      by (auto split: sum.splits)
    have nn': "\<not> \<not> added" using True by simp
    from "3.IH"(2) [OF fn add [symmetric] nn' tn nn ce1 w]
    have "completeExcept d (insert typeName S - {fieldTypeName}) cn2" .
    then have ce2: "completeExcept d (insert typeName S) cn2"
      by (rule completeExcept_mono) auto
    from "3.IH"(3) [OF fn add [symmetric] nn' tn nn w ce2 l] have
      ce: "completeExcept d (insert typeName S) cn'"
      and all: "\<forall>ref \<in> set rest. \<exists>f. FieldDefinitionNameString d ref = Inr f
                   \<and> f \<in> set (firstFields cn' typeName)" by blast+
    from in1 walk_grows [OF w, of typeName] loop_grows [OF l, of typeName]
    have "fieldName \<in> set (firstFields cn' typeName)" by blast
    with ce all fn show ?thesis by auto
  qed
qed

text \<open>
  The walk registers for a type only names of field definitions of that type.
\<close>

lemma walk_declared:
  shows "declared d cn \<Longrightarrow> findChildNodesForType d t cn = Inr cn' \<Longrightarrow> declared d cn'"
    and "declared d cn \<Longrightarrow> FirstNodeByNameStr (Index d) t = Some node
           \<Longrightarrow> NodeFieldDefinitions d node = Inr allRefs \<Longrightarrow> set refs \<subseteq> set allRefs
           \<Longrightarrow> findChildNodesLoop d t refs cn = Inr cn' \<Longrightarrow> declared d cn'"
proof (induction d t cn and d t refs cn arbitrary: cn' and cn' node allRefs
    rule: findChildNodesForType_findChildNodesLoop.induct)
  case (1 d typeName childNodes)
  show ?case
  proof (cases "FirstNodeByNameStr (Index d) typeName")
    case None
    with "1.prems" show ?thesis by simp
  next
    case (Some node)
    with "1.prems"(2) obtain refs where refs: "NodeFieldDefinitions d node = Inr refs"
      and l: "findChildNodesLoop d typeName refs childNodes = Inr cn'"
      by (auto split: sum.splits)
    from "1.IH" [OF Some refs "1.prems"(1) Some refs _ l] show ?thesis by simp
  qed
next
  case (2 d typeName childNodes)
  then show ?case by simp
next
  case (3 d typeName fieldRef rest childNodes)
  from "3.prems"(5) obtain fieldName where fn: "FieldDefinitionNameString d fieldRef = Inr fieldName"
    by (cases "FieldDefinitionNameString d fieldRef") auto
  obtain added cn1 where add: "addChildTypeFieldName typeName fieldName childNodes = (added, cn1)"
    by (cases "addChildTypeFieldName typeName fieldName childNodes") auto
  from "3.prems"(4) have mem: "fieldRef \<in> set allRefs" and sub: "set rest \<subseteq> set allRefs" by auto
  have d1: "declared d cn1"
    unfolding declared_def
  proof (intro allI impI)
    fix t f assume f: "f \<in> set (firstFields cn1 t)"
    show "\<exists>node refs ref.
           FirstNodeByNameStr (Index d) t = Some node \<and> NodeFieldDefinitions d node = Inr refs
             \<and> ref \<in> set refs \<and> FieldDefinitionNameString d ref = Inr f"
    proof (cases "t = typeName \<and> f = fieldName")
      case True
      with "3.prems"(2,3) mem fn show ?thesis by blast
    next
      case False
      with f addChild_firstFields [OF add, of t] have "f \<in> set (firstFields childNodes t)"
        by (auto split: if_splits)
      with "3.prems"(1) show ?thesis unfolding declared_def by blast
    qed
  qed
  show ?case
  proof (cases added)
    case False
    with "3.prems"(5) fn add have l: "findChildNodesLoop d typeName rest cn1 = Inr cn'" by simp
    from "3.IH"(1) [OF fn add [symmetric] False d1 "3.prems"(2,3) sub l] show ?thesis .
  next
    case True
    from "3.prems"(5) fn add True obtain typeNode fieldTypeName cn2 where
      tn: "FieldDefinitionTypeNode d fieldRef = Inr typeNode"
      and nn: "NodeNameString d typeNode = Inr fieldTypeName"
      and w: "findChildNodesForType d fieldTypeName cn1 = Inr cn2"
      and l: "findChildNodesLoop d typeName rest cn2 = Inr cn'"
      by (auto split: sum.splits)
    have nn': "\<not> \<not> added" using True by simp
    from "3.IH"(2) [OF fn add [symmetric] nn' tn nn d1 w] have d2: "declared d cn2" .
    from "3.IH"(3) [OF fn add [symmetric] nn' tn nn w d2 "3.prems"(2,3) sub l] show ?thesis .
  qed
qed

lemma firstFields_member:
  "distinct (map TypeName cn) \<Longrightarrow> tf \<in> set cn \<Longrightarrow> firstFields cn (TypeName tf) = FieldNames tf"
  by (induction cn) (auto simp: rev_image_eqI)

text \<open>
  The child set: one record per type, none empty, each listing the names of all the field
  definitions of the node the index gives for its type name, and no other name.
\<close>

lemma getAllChildNodes_records:
  assumes "getAllChildNodes d roots = Inr cn" and "tf \<in> set cn"
  shows "distinct (map TypeName cn)"
    and "FieldNames tf \<noteq> []"
    and "firstFields cn (TypeName tf) = FieldNames tf"
    and "\<exists>node refs.
           FirstNodeByNameStr (Index d) (TypeName tf) = Some node
         \<and> NodeFieldDefinitions d node = Inr refs
         \<and> (\<forall>ref \<in> set refs. ref < length (FieldDefinitions d))
         \<and> set (FieldNames tf) = (\<lambda>ref. fd_Name (FieldDefinitions d ! ref)) ` set refs"
proof -
  show dist: "distinct (map TypeName cn)"
    by (rule getAllChildNodes_invariant [where P = "\<lambda>cn. distinct (map TypeName cn)", OF _ _ assms(1)])
       (auto dest: addChild_distinct_TypeNames)
  have "\<forall>tf \<in> set cn. FieldNames tf \<noteq> []"
    by (rule getAllChildNodes_invariant
          [where P = "\<lambda>cn. \<forall>tf \<in> set cn. FieldNames tf \<noteq> []", OF _ _ assms(1)])
       (auto dest: addChild_nonempty_FieldNames)
  with assms(2) show ne: "FieldNames tf \<noteq> []" by blast
  show ff: "firstFields cn (TypeName tf) = FieldNames tf"
    by (rule firstFields_member [OF dist assms(2)])
  have "completeExcept d {} cn"
  proof (rule getAllChildNodes_invariant_walk [where P = "completeExcept d {}", OF _ _ assms(1)])
    fix t c c' assume "completeExcept d {} c" "findChildNodesForType d t c = Inr c'"
    from walk_complete(1) [OF this] show "completeExcept d {} c'" by simp
  next
    show "completeExcept d {} []" by (simp add: completeExcept_def)
  qed
  with ne ff have complete: "completeAt d cn (TypeName tf)" by (simp add: completeExcept_def)
  have "declared d cn"
  proof (rule getAllChildNodes_invariant_walk [where P = "declared d", OF _ _ assms(1)])
    fix t c c' assume "declared d c" "findChildNodesForType d t c = Inr c'"
    then show "declared d c'" by (rule walk_declared(1))
  next
    show "declared d []" by (simp add: declared_def)
  qed
  then have decl: "\<And>f. f \<in> set (FieldNames tf) \<Longrightarrow>
      \<exists>node refs ref. FirstNodeByNameStr (Index d) (TypeName tf) = Some node
        \<and> NodeFieldDefinitions d node = Inr refs \<and> ref \<in> set refs
        \<and> FieldDefinitionNameString d ref = Inr f"
    unfolding declared_def ff [symmetric] by blast
  from ne obtain f0 where "f0 \<in> set (FieldNames tf)" by (cases "FieldNames tf") auto
  from decl [OF this] obtain node refs where
    n: "FirstNodeByNameStr (Index d) (TypeName tf) = Some node"
       "NodeFieldDefinitions d node = Inr refs" by blast
  from complete n ff have all: "\<forall>ref \<in> set refs. \<exists>f. FieldDefinitionNameString d ref = Inr f
      \<and> f \<in> set (FieldNames tf)"
    unfolding completeAt_def by simp
  then have range: "\<forall>ref \<in> set refs. ref < length (FieldDefinitions d)"
    and sup: "(\<lambda>ref. fd_Name (FieldDefinitions d ! ref)) ` set refs \<subseteq> set (FieldNames tf)"
    by (auto simp: FieldDefinitionNameString_Inr)
  have "set (FieldNames tf) \<subseteq> (\<lambda>ref. fd_Name (FieldDefinitions d ! ref)) ` set refs"
  proof
    fix f assume "f \<in> set (FieldNames tf)"
    from decl [OF this] n obtain ref where "ref \<in> set refs" "FieldDefinitionNameString d ref = Inr f"
      by auto
    then show "f \<in> (\<lambda>ref. fd_Name (FieldDefinitions d ! ref)) ` set refs"
      by (auto simp: FieldDefinitionNameString_Inr)
  qed
  with n range sup show "\<exists>node refs.
           FirstNodeByNameStr (Index d) (TypeName tf) = Some node
         \<and> NodeFieldDefinitions d node = Inr refs
         \<and> (\<forall>ref \<in> set refs. ref < length (FieldDefinitions d))
         \<and> set (FieldNames tf) = (\<lambda>ref. fd_Name (FieldDefinitions d ! ref)) ` set refs"
    by blast
qed

lemma walk_registers:
  assumes "findChildNodesForType d t cn = Inr cn'"
    and "FirstNodeByNameStr (Index d) t = Some node" and "NodeFieldDefinitions d node = Inr refs"
  shows "\<forall>ref \<in> set refs. \<exists>f. FieldDefinitionNameString d ref = Inr f \<and> f \<in> set (firstFields cn' t)"
proof -
  from assms have l: "findChildNodesLoop d t refs cn = Inr cn'" by simp
  have "completeExcept d (insert t UNIV) cn" by (simp add: completeExcept_def)
  from walk_complete(2) [OF this l] show ?thesis by blast
qed

section \<open>The field names of a root record\<close>

text \<open>
  The map of \<^verbatim>\<open>getAllChildNodes\<close> knows a name only if one of the field definitions it
  was built from has the name.
\<close>

lemma fieldNameToRefs_dom:
  "fieldNameToRefs d refs fm = Inr fm' \<Longrightarrow> fm' f = Some ref \<Longrightarrow>
     fm f = Some ref \<or> (ref \<in> set refs \<and> FieldDefinitionNameString d ref = Inr f)"
proof (induction refs arbitrary: fm)
  case Nil
  then show ?case by simp
next
  case (Cons r rest)
  from Cons.prems(1) obtain name where n: "FieldDefinitionNameString d r = Inr name"
    and l: "fieldNameToRefs d rest (fm(name \<mapsto> r)) = Inr fm'"
    by (auto split: sum.splits)
  from Cons.IH [OF l Cons.prems(2)] n show ?case by (auto split: if_splits)
qed

lemma childNodesOfRootFields_append:
  "childNodesOfRootFields d fm (before @ after) cn =
     (case childNodesOfRootFields d fm before cn of
        Inl e \<Rightarrow> Inl e
      | Inr cn1 \<Rightarrow> childNodesOfRootFields d fm after cn1)"
  by (induction before arbitrary: cn) (auto split: sum.splits)

text \<open>A type the walk is called for from a root field is registered at the end.\<close>

lemma childNodesOfRootFields_walks:
  assumes "childNodesOfRootFields d fm names cn = Inr cn'" and "fieldName \<in> set names"
    and "FieldDefinitionTypeNode d (mapIndex fm fieldName) = Inr typeNode"
    and "NodeNameString d typeNode = Inr t"
  shows "\<exists>c1 c2. findChildNodesForType d t c1 = Inr c2
           \<and> set (firstFields c2 t) \<subseteq> set (firstFields cn' t)"
  using assms(1,2)
proof (induction names arbitrary: cn)
  case Nil
  then show ?case by simp
next
  case (Cons name rest)
  from Cons.prems(1) obtain cn1 where
    a: "childNodesOfRootField d fm name cn = Inr cn1"
    and b: "childNodesOfRootFields d fm rest cn1 = Inr cn'"
    by (auto split: sum.splits)
  show ?case
  proof (cases "name = fieldName")
    case True
    with a assms(3,4) have "findChildNodesForType d t cn = Inr cn1"
      by (simp add: childNodesOfRootField_def)
    with childNodesOfRootFields_grows [OF b, of t] show ?thesis by blast
  next
    case False
    with Cons.prems(2) have "fieldName \<in> set rest" by simp
    from Cons.IH [OF b this] show ?thesis .
  qed
qed

lemma getAllChildNodesLoop_walks:
  assumes "getAllChildNodesLoop d roots cn = Inr cn'" and "rootNode \<in> set roots"
    and "fieldName \<in> set (FieldNames rootNode)"
    and "rootFieldTypeName d rootNode fieldName = Some t"
  shows "\<exists>c1 c2. findChildNodesForType d t c1 = Inr c2
           \<and> set (firstFields c2 t) \<subseteq> set (firstFields cn' t)"
  using assms(1,2)
proof (induction roots arbitrary: cn)
  case Nil
  then show ?case by simp
next
  case (Cons root rest)
  show ?case
  proof (cases "FirstNodeByNameStr (Index d) (TypeName root)")
    case None
    with Cons.prems(1) have l: "getAllChildNodesLoop d rest cn = Inr cn'" by simp
    from None assms(4) have "root \<noteq> rootNode" by (auto simp: rootFieldTypeName_def)
    with Cons.prems(2) have "rootNode \<in> set rest" by simp
    from Cons.IH [OF l this] show ?thesis .
  next
    case (Some node)
    with Cons.prems(1) obtain refs fm cn1 where
      refs: "NodeFieldDefinitions d node = Inr refs"
      and fm: "fieldNameToRefs d refs Map.empty = Inr fm"
      and a: "childNodesOfRootFields d fm (FieldNames root) cn = Inr cn1"
      and b: "getAllChildNodesLoop d rest cn1 = Inr cn'"
      by (auto split: sum.splits)
    show ?thesis
    proof (cases "root = rootNode")
      case True
      with assms(4) Some refs fm obtain typeNode where
        "FieldDefinitionTypeNode d (mapIndex fm fieldName) = Inr typeNode"
        "NodeNameString d typeNode = Inr t"
        by (auto simp: rootFieldTypeName_def split: sum.splits)
      from childNodesOfRootFields_walks [OF a _ this] True assms(3) obtain c1 c2 where
        "findChildNodesForType d t c1 = Inr c2" "set (firstFields c2 t) \<subseteq> set (firstFields cn1 t)"
        by blast
      with getAllChildNodesLoop_grows [OF b, of t] show ?thesis by blast
    next
      case False
      with Cons.prems(2) have "rootNode \<in> set rest" by simp
      from Cons.IH [OF b this] show ?thesis .
    qed
  qed
qed

section \<open>Two types that refer to each other\<close>

lemma linked_mono: "linked A B fAB fBA X cn \<Longrightarrow> X \<subseteq> Y \<Longrightarrow> linked A B fAB fBA Y cn"
  by (auto simp: linked_def)

lemma linked_registered:
  "linked A B fAB fBA {t} cn \<Longrightarrow> firstFields cn t \<noteq> [] \<Longrightarrow> linked A B fAB fBA {} cn"
  by (auto simp: linked_def)

text \<open>
  The walk keeps the two types of a cycle linked: when it registers the field of one that
  leads to the other, the call it makes next is the walk of the other, which has field
  definitions and so gets a record.
\<close>

lemma walk_linked:
  shows "fieldLeadsTo d A fAB B \<Longrightarrow> fieldLeadsTo d B fBA A \<Longrightarrow> linked A B fAB fBA {t} cn
           \<Longrightarrow> findChildNodesForType d t cn = Inr cn' \<Longrightarrow> linked A B fAB fBA {} cn'"
    and "fieldLeadsTo d A fAB B \<Longrightarrow> fieldLeadsTo d B fBA A \<Longrightarrow> linked A B fAB fBA {t} cn
           \<Longrightarrow> FirstNodeByNameStr (Index d) t = Some node
           \<Longrightarrow> NodeFieldDefinitions d node = Inr allRefs \<Longrightarrow> set refs \<subseteq> set allRefs
           \<Longrightarrow> findChildNodesLoop d t refs cn = Inr cn'
           \<Longrightarrow> linked A B fAB fBA {t} cn' \<and> (refs \<noteq> [] \<longrightarrow> firstFields cn' t \<noteq> [])"
proof (induction d t cn and d t refs cn arbitrary: cn' and cn' node allRefs
    rule: findChildNodesForType_findChildNodesLoop.induct)
  case (1 d typeName childNodes)
  note ab = "1.prems"(1) and ba = "1.prems"(2) and pre = "1.prems"(3) and res = "1.prems"(4)
  show ?case
  proof (cases "FirstNodeByNameStr (Index d) typeName")
    case None
    with ab ba have "typeName \<noteq> A" "typeName \<noteq> B" by (auto simp: fieldLeadsTo_def)
    moreover from None res have "cn' = childNodes" by simp
    ultimately show ?thesis using pre by (auto simp: linked_def)
  next
    case (Some node)
    with res obtain refs where refs: "NodeFieldDefinitions d node = Inr refs"
      and l: "findChildNodesLoop d typeName refs childNodes = Inr cn'"
      by (auto split: sum.splits)
    from "1.IH" [OF Some refs ab ba pre Some refs _ l] have
      lk: "linked A B fAB fBA {typeName} cn'"
      and ne: "refs \<noteq> [] \<longrightarrow> firstFields cn' typeName \<noteq> []" by simp_all
    show ?thesis
    proof (cases "refs = []")
      case True
      with ab ba Some refs have "typeName \<noteq> A" "typeName \<noteq> B" by (auto simp: fieldLeadsTo_def)
      with lk show ?thesis by (auto simp: linked_def)
    next
      case False
      with ne lk show ?thesis by (auto intro: linked_registered)
    qed
  qed
next
  case (2 d typeName childNodes)
  then show ?case by simp
next
  case (3 d typeName fieldRef rest childNodes)
  note ab = "3.prems"(1) and ba = "3.prems"(2) and pre = "3.prems"(3)
    and node = "3.prems"(4) and allRefs = "3.prems"(5) and sub = "3.prems"(6)
    and res = "3.prems"(7)
  from res obtain fieldName where fn: "FieldDefinitionNameString d fieldRef = Inr fieldName"
    by (cases "FieldDefinitionNameString d fieldRef") auto
  obtain added cn1 where add: "addChildTypeFieldName typeName fieldName childNodes = (added, cn1)"
    by (cases "addChildTypeFieldName typeName fieldName childNodes") auto
  from sub have mem: "fieldRef \<in> set allRefs" and sub': "set rest \<subseteq> set allRefs" by auto
  note ff1 = addChild_firstFields [OF add]
  have in1: "fieldName \<in> set (firstFields cn1 typeName)"
    using ff1 [of typeName] addChild_added_iff [OF add] by auto
  show ?case
  proof (cases added)
    case False
    with add have "addChildTypeFieldName typeName fieldName childNodes = (False, cn1)" by simp
    then have "cn1 = childNodes" by (rule addChild_not_added)
    with res fn add False have l: "findChildNodesLoop d typeName rest cn1 = Inr cn'" by simp
    have "linked A B fAB fBA {typeName} cn1" using pre \<open>cn1 = childNodes\<close> by simp
    from "3.IH"(1) [OF fn add [symmetric] False ab ba this node allRefs sub' l]
    have "linked A B fAB fBA {typeName} cn'" by simp
    moreover from in1 loop_grows [OF l, of typeName] have "firstFields cn' typeName \<noteq> []"
      by auto
    ultimately show ?thesis by simp
  next
    case True
    from res fn add True obtain typeNode fieldTypeName cn2 where
      tn: "FieldDefinitionTypeNode d fieldRef = Inr typeNode"
      and nn: "NodeNameString d typeNode = Inr fieldTypeName"
      and w: "findChildNodesForType d fieldTypeName cn1 = Inr cn2"
      and l: "findChildNodesLoop d typeName rest cn2 = Inr cn'"
      by (auto split: sum.splits)
    have nn': "\<not> \<not> added" using True by simp
    have ne1: "firstFields cn1 typeName \<noteq> []" using in1 by auto
    have pre1: "linked A B fAB fBA {fieldTypeName} cn1"
      unfolding linked_def
    proof (intro conjI impI)
      assume reg: "fAB \<in> set (firstFields cn1 A)"
      show "firstFields cn1 B \<noteq> [] \<or> B \<in> {fieldTypeName}"
      proof (cases "typeName = A \<and> fieldName = fAB")
        case True
        with ab node allRefs mem fn tn nn have "fieldTypeName = B"
          by (auto simp: fieldLeadsTo_def)
        then show ?thesis by simp
      next
        case False
        with reg ff1 [of A] True have "fAB \<in> set (firstFields childNodes A)"
          by (auto split: if_splits)
        with pre have "firstFields childNodes B \<noteq> [] \<or> B = typeName" by (auto simp: linked_def)
        with ff1 [of B] ne1 show ?thesis by (auto split: if_splits)
      qed
    next
      assume reg: "fBA \<in> set (firstFields cn1 B)"
      show "firstFields cn1 A \<noteq> [] \<or> A \<in> {fieldTypeName}"
      proof (cases "typeName = B \<and> fieldName = fBA")
        case True
        with ba node allRefs mem fn tn nn have "fieldTypeName = A"
          by (auto simp: fieldLeadsTo_def)
        then show ?thesis by simp
      next
        case False
        with reg ff1 [of B] True have "fBA \<in> set (firstFields childNodes B)"
          by (auto split: if_splits)
        with pre have "firstFields childNodes A \<noteq> [] \<or> A = typeName" by (auto simp: linked_def)
        with ff1 [of A] ne1 show ?thesis by (auto split: if_splits)
      qed
    qed
    from "3.IH"(2) [OF fn add [symmetric] nn' tn nn ab ba pre1 w]
    have "linked A B fAB fBA {} cn2" .
    then have pre2: "linked A B fAB fBA {typeName} cn2" by (rule linked_mono) simp
    from "3.IH"(3) [OF fn add [symmetric] nn' tn nn w ab ba pre2 node allRefs sub' l]
    have "linked A B fAB fBA {typeName} cn'" by simp
    moreover from in1 walk_grows [OF w, of typeName] loop_grows [OF l, of typeName]
    have "firstFields cn' typeName \<noteq> []" by auto
    ultimately show ?thesis by simp
  qed
qed

lemma firstFields_record:
  "firstFields cn t \<noteq> [] \<Longrightarrow> \<exists>tf \<in> set cn. TypeName tf = t \<and> FieldNames tf = firstFields cn t"
  by (induction cn) (auto split: if_splits)

lemma filter_TypeName_single:
  "distinct (map TypeName cn) \<Longrightarrow> tf \<in> set cn \<Longrightarrow>
     filter (\<lambda>x. TypeName x = TypeName tf) cn = [tf]"
proof (induction cn)
  case Nil
  then show ?case by simp
next
  case (Cons x xs)
  show ?case
  proof (cases "x = tf")
    case True
    from Cons.prems(1) have "TypeName x \<notin> TypeName ` set xs" by simp
    with True have "\<forall>y \<in> set xs. TypeName y \<noteq> TypeName tf" by (metis imageI)
    then have "filter (\<lambda>x. TypeName x = TypeName tf) xs = []" by (simp add: filter_empty_conv)
    with True show ?thesis by simp
  next
    case False
    with Cons.prems(2) have in_xs: "tf \<in> set xs" by simp
    from Cons.prems(1) have "TypeName x \<notin> TypeName ` set xs" by simp
    with in_xs have "TypeName x \<noteq> TypeName tf" by (metis imageI)
    note in_xs this
    with Cons.IH Cons.prems(1) show ?thesis by simp
  qed
qed

text \<open>
  In a type that declares no field name twice, the field definition of return type \<open>B\<close>
  is the only one of its name.
\<close>

lemma fieldLeadsTo_from_declarations:
  assumes "indexedNodeHasFieldOfType d A B" and "indexedNodeFieldNamesOnce d A" and "indexedByName d B"
    and wf: "wf_document d"
  shows "\<exists>f. fieldLeadsTo d A f B \<and> f \<in> set (indexedFieldNames d A)"
proof -
  from assms(1) obtain node refs ref where
    node: "FirstNodeByNameStr (Index d) A = Some node"
    and refs: "NodeFieldDefinitions d node = Inr refs"
    and ref: "ref \<in> set refs" "ref < length (FieldDefinitions d)"
      "fd_Type (FieldDefinitions d ! ref) = B"
    by (auto simp: indexedNodeHasFieldOfType_def list_ex_iff split: option.splits sum.splits)
  from assms(3) obtain nodeB where
    nodeB: "FirstNodeByNameStr (Index d) B = Some nodeB" "NodeNameString d nodeB = Inr B"
    by (auto simp: indexedByName_def split: option.splits)
  let ?name = "\<lambda>r. fd_Name (FieldDefinitions d ! r)"
  from assms(2) node refs have dist: "distinct (map ?name refs)"
    by (simp add: indexedNodeFieldNamesOnce_def indexedFieldNames_def)
  have "\<forall>r \<in> set refs. FieldDefinitionNameString d r = Inr (?name ref) \<longrightarrow>
      (\<exists>typeNode. FieldDefinitionTypeNode d r = Inr typeNode \<and> NodeNameString d typeNode = Inr B)"
  proof (intro ballI impI)
    fix r assume r: "r \<in> set refs" "FieldDefinitionNameString d r = Inr (?name ref)"
    then have "?name r = ?name ref" by (simp add: FieldDefinitionNameString_Inr)
    with dist r(1) ref(1) have "r = ref" by (auto simp: distinct_map inj_on_def)
    with ref nodeB show "\<exists>typeNode. FieldDefinitionTypeNode d r = Inr typeNode
        \<and> NodeNameString d typeNode = Inr B"
      by (simp add: FieldDefinitionTypeNode_def at_def)
  qed
  with node refs ref(1) have "fieldLeadsTo d A (?name ref) B"
    unfolding fieldLeadsTo_def by (intro exI [of _ node] exI [of _ refs]) auto
  moreover from node refs ref(1) have "?name ref \<in> set (indexedFieldNames d A)"
    by (simp add: indexedFieldNames_def)
  ultimately show ?thesis by blast
qed

lemma cycle_records:
  assumes cn: "getAllChildNodes d roots = Inr cn"
    and ab: "fieldLeadsTo d A fAB B" and fab: "fAB \<in> set (indexedFieldNames d A)"
    and ba: "fieldLeadsTo d B fBA A" and fba: "fBA \<in> set (indexedFieldNames d B)"
    and reach: "firstFields cn A \<noteq> [] \<or> firstFields cn B \<noteq> []"
  shows "firstFields cn A \<noteq> [] \<and> firstFields cn B \<noteq> []"
proof -
  have lk: "linked A B fAB fBA {} cn"
  proof (rule getAllChildNodes_invariant_walk [where P = "linked A B fAB fBA {}", OF _ _ cn])
    fix t c c' assume "linked A B fAB fBA {} c" and w: "findChildNodesForType d t c = Inr c'"
    then have "linked A B fAB fBA {t} c" by (auto intro: linked_mono)
    from walk_linked(1) [OF ab ba this w] show "linked A B fAB fBA {} c'" .
  next
    show "linked A B fAB fBA {} []" by (simp add: linked_def)
  qed
  have full: "set (firstFields cn t) = set (indexedFieldNames d t)" if "firstFields cn t \<noteq> []" for t
  proof -
    from firstFields_record [OF that] obtain tf where
      tf: "tf \<in> set cn" "TypeName tf = t" "FieldNames tf = firstFields cn t" by blast
    from getAllChildNodes_records(4) [OF cn tf(1)] tf(2,3) show ?thesis
      by (auto simp: indexedFieldNames_def)
  qed
  from reach show ?thesis
  proof
    assume a: "firstFields cn A \<noteq> []"
    with full [OF a] fab lk have "firstFields cn B \<noteq> []" by (auto simp: linked_def)
    with a show ?thesis by simp
  next
    assume b: "firstFields cn B \<noteq> []"
    with full [OF b] fba lk have "firstFields cn A \<noteq> []" by (auto simp: linked_def)
    with b show ?thesis by simp
  qed
qed

text \<open>
  Two types that refer to each other through the nodes the index gives for them: child
  collection from a root field that leads to one of them gives each its one record.
\<close>

lemma cycle_child_records:
  assumes "wf_document d"
    and "indexedByName d A" and "indexedByName d B"
    and "indexedNodeHasFieldOfType d A B" and "indexedNodeHasFieldOfType d B A"
    and "indexedNodeFieldNamesOnce d A" and "indexedNodeFieldNamesOnce d B"
    and "rootNode \<in> set rootNodes" and "fieldName \<in> set (FieldNames rootNode)"
    and "rootFieldTypeName d rootNode fieldName = Some t" and "t = A \<or> t = B"
  shows "\<exists>childNodes tfA tfB.
           getAllChildNodes d rootNodes = Inr childNodes
         \<and> filter (\<lambda>tf. TypeName tf = A) childNodes = [tfA]
         \<and> filter (\<lambda>tf. TypeName tf = B) childNodes = [tfB]
         \<and> TypeName tfA = A \<and> TypeName tfB = B
         \<and> distinct (FieldNames tfA) \<and> set (FieldNames tfA) = set (indexedFieldNames d A)
         \<and> distinct (FieldNames tfB) \<and> set (FieldNames tfB) = set (indexedFieldNames d B)"
proof -
  note wf = assms(1)
  from fieldLeadsTo_from_declarations [OF assms(4,6,3) wf] obtain fAB where
    ab: "fieldLeadsTo d A fAB B" and fab: "fAB \<in> set (indexedFieldNames d A)" by blast
  from fieldLeadsTo_from_declarations [OF assms(5,7,2) wf] obtain fBA where
    ba: "fieldLeadsTo d B fBA A" and fba: "fBA \<in> set (indexedFieldNames d B)" by blast
  from assms(4) have "FieldDefinitions d \<noteq> []"
    by (auto simp: indexedNodeHasFieldOfType_def list_ex_iff split: option.splits sum.splits)
  then have "(\<forall>tf \<in> set rootNodes. FieldNames tf = []) \<or> FieldDefinitions d \<noteq> []" by simp
  from getAllChildNodesLoop_total [OF wf this, of "[]"] obtain cn where
    cn: "getAllChildNodes d rootNodes = Inr cn" by (auto simp: getAllChildNodes_def)
  then have loop: "getAllChildNodesLoop d rootNodes [] = Inr cn" by (simp add: getAllChildNodes_def)
  from getAllChildNodesLoop_walks [OF loop assms(8,9,10)] obtain c1 c2 where
    w: "findChildNodesForType d t c1 = Inr c2"
    and sub: "set (firstFields c2 t) \<subseteq> set (firstFields cn t)" by blast
  from assms(11) ab ba obtain node refs where
    n: "FirstNodeByNameStr (Index d) t = Some node" "NodeFieldDefinitions d node = Inr refs"
       "refs \<noteq> []"
    by (auto simp: fieldLeadsTo_def)
  from walk_registers [OF w n(1,2)] n(3) have "firstFields c2 t \<noteq> []"
    by (cases refs) auto
  with sub have "firstFields cn t \<noteq> []" by auto
  with assms(11) have "firstFields cn A \<noteq> [] \<or> firstFields cn B \<noteq> []" by auto
  from cycle_records [OF cn ab fab ba fba this] have
    a: "firstFields cn A \<noteq> []" and b: "firstFields cn B \<noteq> []" by simp_all
  from firstFields_record [OF a] obtain tfA where
    tfA: "tfA \<in> set cn" "TypeName tfA = A" by blast
  from firstFields_record [OF b] obtain tfB where
    tfB: "tfB \<in> set cn" "TypeName tfB = B" by blast
  note recA = getAllChildNodes_records [OF cn tfA(1)]
  note recB = getAllChildNodes_records [OF cn tfB(1)]
  have dist: "\<forall>tf \<in> set cn. distinct (FieldNames tf)"
    by (rule getAllChildNodes_invariant
          [where P = "\<lambda>cn. \<forall>tf \<in> set cn. distinct (FieldNames tf)", OF _ _ cn])
       (auto dest: addChild_distinct_FieldNames)
  have "filter (\<lambda>tf. TypeName tf = A) cn = [tfA]"
    using filter_TypeName_single [OF recA(1) tfA(1)] tfA(2) by simp
  moreover have "filter (\<lambda>tf. TypeName tf = B) cn = [tfB]"
    using filter_TypeName_single [OF recB(1) tfB(1)] tfB(2) by simp
  moreover have "set (FieldNames tfA) = set (indexedFieldNames d A)"
    using recA(4) tfA(2) by (auto simp: indexedFieldNames_def)
  moreover have "set (FieldNames tfB) = set (indexedFieldNames d B)"
    using recB(4) tfB(2) by (auto simp: indexedFieldNames_def)
  ultimately show ?thesis using cn tfA tfB dist by blast
qed

text \<open>
  For a type declared by the one node the index gives for it, the fields declared on the
  type are the field definitions of that node.
\<close>

lemma declaredByIndexedNode_fields:
  assumes "declaredByIndexedNode d A"
  shows "indexedByName d A"
    and "declaredFieldNames d A = indexedFieldNames d A"
    and "hasFieldOfType d A B \<longleftrightarrow> indexedNodeHasFieldOfType d A B"
    and "declaresFieldNamesOnce d A \<longleftrightarrow> indexedNodeFieldNamesOnce d A"
proof -
  from assms obtain node where
    n: "FirstNodeByNameStr (Index d) A = Some node" and ns: "nodesOfType d A = [node]"
    by (auto simp: declaredByIndexedNode_def split: option.splits)
  from ns have "node \<in> set (nodesOfType d A)" by simp
  then have "NodeNameString d node = Inr A" by (simp add: nodesOfType_def)
  with n show "indexedByName d A" by (simp add: indexedByName_def)
  show names: "declaredFieldNames d A = indexedFieldNames d A"
    using n ns
    by (simp add: declaredFieldNames_def declaredFieldRefs_def indexedFieldNames_def
        split: sum.splits)
  show "hasFieldOfType d A B \<longleftrightarrow> indexedNodeHasFieldOfType d A B"
    using n ns
    by (simp add: hasFieldOfType_def declaredFieldRefs_def indexedNodeHasFieldOfType_def
        split: sum.splits)
  show "declaresFieldNamesOnce d A \<longleftrightarrow> indexedNodeFieldNamesOnce d A"
    by (simp add: declaresFieldNamesOnce_def indexedNodeFieldNamesOnce_def names)
qed

section \<open>The types that have a record\<close>

lemma closed_mono: "closed d X cn \<Longrightarrow> X \<subseteq> Y \<Longrightarrow> closed d Y cn"
  unfolding closed_def by blast

lemma find_first:
  "\<forall>x \<in> set before. \<not> P x \<Longrightarrow> P y \<Longrightarrow> find P (before @ y # after) = Some y"
  by (induction before) auto

lemma walk_closed:
  shows "closed d {t} cn \<Longrightarrow> findChildNodesForType d t cn = Inr cn' \<Longrightarrow> closed d {} cn'"
    and "closed d {t} cn \<Longrightarrow> FirstNodeByNameStr (Index d) t = Some node
           \<Longrightarrow> NodeFieldDefinitions d node = Inr allRefs \<Longrightarrow> allRefs = before @ refs
           \<Longrightarrow> \<forall>r \<in> set before. \<exists>f. FieldDefinitionNameString d r = Inr f
                 \<and> f \<in> set (firstFields cn t)
           \<Longrightarrow> findChildNodesLoop d t refs cn = Inr cn'
           \<Longrightarrow> closed d {t} cn' \<and> (refs \<noteq> [] \<longrightarrow> firstFields cn' t \<noteq> [])"
proof (induction d t cn and d t refs cn arbitrary: cn' and cn' node allRefs before
    rule: findChildNodesForType_findChildNodesLoop.induct)
  case (1 d typeName childNodes)
  note pre = "1.prems"(1) and res = "1.prems"(2)
  show ?case
  proof (cases "FirstNodeByNameStr (Index d) typeName")
    case None
    then have "indexedFieldNames d typeName = []" by (simp add: indexedFieldNames_def)
    moreover from None res have "cn' = childNodes" by simp
    ultimately show ?thesis using pre unfolding closed_def by blast
  next
    case (Some node)
    with res obtain refs where refs: "NodeFieldDefinitions d node = Inr refs"
      and l: "findChildNodesLoop d typeName refs childNodes = Inr cn'"
      by (auto split: sum.splits)
    have "refs = [] @ refs" by simp
    from "1.IH" [OF Some refs pre Some refs this _ l] have
      cl: "closed d {typeName} cn'"
      and ne: "refs \<noteq> [] \<longrightarrow> firstFields cn' typeName \<noteq> []" by simp_all
    have "firstFields cn' typeName \<noteq> [] \<or> indexedFieldNames d typeName = []"
      using ne Some refs by (cases "refs = []") (simp_all add: indexedFieldNames_def)
    with cl show ?thesis unfolding closed_def by blast
  qed
next
  case (2 d typeName childNodes)
  then show ?case by simp
next
  case (3 d typeName fieldRef rest childNodes)
  note pre = "3.prems"(1) and node = "3.prems"(2) and allRefs = "3.prems"(3)
    and split = "3.prems"(4) and before = "3.prems"(5) and res = "3.prems"(6)
  from res obtain fieldName where fn: "FieldDefinitionNameString d fieldRef = Inr fieldName"
    by (cases "FieldDefinitionNameString d fieldRef") auto
  obtain added cn1 where add: "addChildTypeFieldName typeName fieldName childNodes = (added, cn1)"
    by (cases "addChildTypeFieldName typeName fieldName childNodes") auto
  note ff1 = addChild_firstFields [OF add]
  have in1: "fieldName \<in> set (firstFields cn1 typeName)"
    using ff1 [of typeName] addChild_added_iff [OF add] by auto
  have grow1: "set (firstFields childNodes u) \<subseteq> set (firstFields cn1 u)" for u
    using ff1 [of u] by auto
  have split': "allRefs = (before @ [fieldRef]) @ rest" using split by simp
  show ?case
  proof (cases added)
    case False
    with add have "addChildTypeFieldName typeName fieldName childNodes = (False, cn1)" by simp
    then have same: "cn1 = childNodes" by (rule addChild_not_added)
    with res fn add False have l: "findChildNodesLoop d typeName rest cn1 = Inr cn'" by simp
    have pre1: "closed d {typeName} cn1" using pre same by simp
    have before1: "\<forall>r \<in> set (before @ [fieldRef]). \<exists>f. FieldDefinitionNameString d r = Inr f
        \<and> f \<in> set (firstFields cn1 typeName)"
      using before fn in1 same by auto
    from "3.IH"(1) [OF fn add [symmetric] False pre1 node allRefs split' before1 l]
    have "closed d {typeName} cn'" by simp
    moreover from in1 loop_grows [OF l, of typeName] have "firstFields cn' typeName \<noteq> []"
      by auto
    ultimately show ?thesis by simp
  next
    case True
    from res fn add True obtain typeNode ft cn2 where
      tn: "FieldDefinitionTypeNode d fieldRef = Inr typeNode"
      and nn: "NodeNameString d typeNode = Inr ft"
      and w: "findChildNodesForType d ft cn1 = Inr cn2"
      and l: "findChildNodesLoop d typeName rest cn2 = Inr cn'"
      by (auto split: sum.splits)
    have nn': "\<not> \<not> added" using True by simp
    from True addChild_added_iff [OF add] have new: "fieldName \<notin> set (firstFields childNodes typeName)"
      by simp
    with before have "\<forall>r \<in> set before. \<not> FieldDefinitionNameString d r = Inr fieldName" by auto
    from find_first [OF this fn, of rest] split
    have first: "firstFieldNamed d allRefs fieldName = Some fieldRef"
      by (simp add: firstFieldNamed_def)
    have target: "returnTypeName d fieldRef = Some ft" using tn nn by (simp add: returnTypeName_def)
    have ne1: "firstFields cn1 typeName \<noteq> []" using in1 by auto
    have pre1: "closed d {ft} cn1"
      unfolding closed_def
    proof (intro allI impI, elim conjE)
      fix u g nodeU refsU r t'
      assume g: "g \<in> set (firstFields cn1 u)"
        and nu: "FirstNodeByNameStr (Index d) u = Some nodeU"
        and ru: "NodeFieldDefinitions d nodeU = Inr refsU"
        and fu: "firstFieldNamed d refsU g = Some r"
        and tu: "returnTypeName d r = Some t'"
      show "t' \<in> {ft} \<or> firstFields cn1 t' \<noteq> [] \<or> indexedFieldNames d t' = []"
      proof (cases "u = typeName \<and> g = fieldName")
        case True
        with nu ru node allRefs fu first have "r = fieldRef" by simp
        with tu target show ?thesis by simp
      next
        case False
        with g ff1 [of u] have "g \<in> set (firstFields childNodes u)" by (auto split: if_splits)
        with pre nu ru fu tu have
          "t' = typeName \<or> firstFields childNodes t' \<noteq> [] \<or> indexedFieldNames d t' = []"
          unfolding closed_def by blast
        with ne1 grow1 [of t'] show ?thesis by auto
      qed
    qed
    from "3.IH"(2) [OF fn add [symmetric] nn' tn nn pre1 w] have "closed d {} cn2" .
    then have pre2: "closed d {typeName} cn2" by (rule closed_mono) simp
    have before2: "\<forall>r \<in> set (before @ [fieldRef]). \<exists>f. FieldDefinitionNameString d r = Inr f
        \<and> f \<in> set (firstFields cn2 typeName)"
      using before fn in1 grow1 [of typeName] walk_grows [OF w, of typeName] by fastforce
    from "3.IH"(3) [OF fn add [symmetric] nn' tn nn w pre2 node allRefs split' before2 l]
    have "closed d {typeName} cn'" by simp
    moreover from in1 walk_grows [OF w, of typeName] loop_grows [OF l, of typeName]
    have "firstFields cn' typeName \<noteq> []" by auto
    ultimately show ?thesis by simp
  qed
qed

lemma getAllChildNodes_closed:
  assumes "getAllChildNodes d roots = Inr cn"
  shows "closed d {} cn"
proof (rule getAllChildNodes_invariant_walk [where P = "closed d {}", OF _ _ assms])
  fix t c c' assume "closed d {} c" and w: "findChildNodesForType d t c = Inr c'"
  then have "closed d {t} c" by (auto intro: closed_mono)
  from walk_closed(1) [OF this w] show "closed d {} c'" .
next
  show "closed d {} []" by (simp add: closed_def)
qed

lemma firstFieldNamed_Some:
  "firstFieldNamed d refs f = Some ref \<Longrightarrow> ref \<in> set refs \<and> FieldDefinitionNameString d ref = Inr f"
  by (auto simp: firstFieldNamed_def find_Some_iff)

text \<open>
  The types that have a record: the return type of a root field, as \<^verbatim>\<open>getAllChildNodes\<close>
  looks it up, and the return type of the first field definition of each name of a type
  that has a record, when the node of the return type has a field definition.
\<close>

lemma getAllChildNodes_reaches:
  assumes cn: "getAllChildNodes d roots = Inr cn"
  shows "rootNode \<in> set roots \<Longrightarrow> fieldName \<in> set (FieldNames rootNode)
           \<Longrightarrow> rootFieldTypeName d rootNode fieldName = Some t
           \<Longrightarrow> indexedFieldNames d t \<noteq> [] \<Longrightarrow> \<exists>tf \<in> set cn. TypeName tf = t"
    and "tf \<in> set cn \<Longrightarrow> FirstNodeByNameStr (Index d) (TypeName tf) = Some node
           \<Longrightarrow> NodeFieldDefinitions d node = Inr refs
           \<Longrightarrow> firstFieldNamed d refs f = Some ref \<Longrightarrow> returnTypeName d ref = Some t
           \<Longrightarrow> indexedFieldNames d t \<noteq> [] \<Longrightarrow> \<exists>tf' \<in> set cn. TypeName tf' = t"
proof -
  from cn have loop: "getAllChildNodesLoop d roots [] = Inr cn" by (simp add: getAllChildNodes_def)
  {
    assume r: "rootNode \<in> set roots" "fieldName \<in> set (FieldNames rootNode)"
      "rootFieldTypeName d rootNode fieldName = Some t" and ne: "indexedFieldNames d t \<noteq> []"
    from getAllChildNodesLoop_walks [OF loop r] obtain c1 c2 where
      w: "findChildNodesForType d t c1 = Inr c2"
      and sub: "set (firstFields c2 t) \<subseteq> set (firstFields cn t)" by blast
    from ne obtain n rs where
      n: "FirstNodeByNameStr (Index d) t = Some n" "NodeFieldDefinitions d n = Inr rs" "rs \<noteq> []"
      by (auto simp: indexedFieldNames_def split: option.splits sum.splits)
    from walk_registers [OF w n(1,2)] n(3) have "firstFields c2 t \<noteq> []" by (cases rs) auto
    with sub have "firstFields cn t \<noteq> []" by auto
    from firstFields_record [OF this] show "\<exists>tf \<in> set cn. TypeName tf = t" by blast
  }
  {
    assume tf: "tf \<in> set cn" and n: "FirstNodeByNameStr (Index d) (TypeName tf) = Some node"
      "NodeFieldDefinitions d node = Inr refs"
      and f: "firstFieldNamed d refs f = Some ref" and t: "returnTypeName d ref = Some t"
      and ne: "indexedFieldNames d t \<noteq> []"
    note rec = getAllChildNodes_records [OF cn tf]
    from firstFieldNamed_Some [OF f] have "ref \<in> set refs"
      "f = fd_Name (FieldDefinitions d ! ref)" by (auto simp: FieldDefinitionNameString_Inr)
    with rec(4) n have "f \<in> set (FieldNames tf)" by auto
    with rec(3) have "f \<in> set (firstFields cn (TypeName tf))" by simp
    with getAllChildNodes_closed [OF cn] n f t ne have "firstFields cn t \<noteq> []"
      unfolding closed_def by blast
    from firstFields_record [OF this] show "\<exists>tf' \<in> set cn. TypeName tf' = t" by blast
  }
qed

section \<open>The example documents, evaluated\<close>

lemma exDoc_GetAllNodes:
  "GetAllNodes (okResolver exDoc) exExtractor (exMemory exDoc) =
     Inr ((exRootNodes, exChildNodes), exMemoryAfter)"
  by code_simp

lemma exDoc_deref: "deref (exMemory exDoc) (document exExtractor) = Inr exDoc"
  by (simp add: deref_def exMemory_def exExtractor_def NewNodeExtractor_def)

lemma dupTypeDoc_GetAllNodes:
  "GetAllNodes failResolver exExtractor (exMemory dupTypeDoc) =
     Inr ((dupTypeRootNodes, []), \<lparr>heap = [dupTypeDoc], baseSchemaCalls = 2\<rparr>)"
  by code_simp

lemma dupFieldDoc_GetAllNodes:
  "GetAllNodes failResolver exExtractor (exMemory dupFieldDoc) =
     Inr (([\<lparr>TypeName = ''Item'', FieldNames = [''a'', ''a'']\<rparr>], []),
          \<lparr>heap = [dupFieldDoc], baseSchemaCalls = 1\<rparr>)"
  by code_simp

lemma wf_exDoc: "wf_document exDoc" by code_simp

lemma ifaceDoc_GetAllNodes:
  "GetAllNodes failResolver exExtractor (exMemory ifaceDoc) =
     Inr (([], []), \<lparr>heap = [ifaceDoc], baseSchemaCalls = 0\<rparr>)"
  by code_simp

lemma wf_shadowDoc: "wf_document shadowDoc" by code_simp

lemma wf_extCycleDoc: "wf_document extCycleDoc" by code_simp

section \<open>The claims\<close>

subsection \<open>C1\<close>

text \<open>
  C1, as amended. Let \<open>A\<close> and \<open>B\<close> be types of a well-formed document, each declared by a
  single top-level node, the node the index gives for its name; let \<open>A\<close> have a field
  whose declared return type is \<open>B\<close> and \<open>B\<close> a field whose declared return type is \<open>A\<close>,
  neither type declaring a field name twice. Child collection from a root set with a
  field name for which \<^verbatim>\<open>getAllChildNodes\<close> walks the return type \<open>A\<close> or \<open>B\<close> returns
  (the walk is a total function, and it does not panic), and the child set has exactly
  one record for \<open>A\<close> and exactly one for \<open>B\<close>, each listing the names of the fields
  declared on its type, each name once.
\<close>

theorem C1_cycle_terminates:
  assumes "wf_document d"
    and "declaredByIndexedNode d A" and "declaredByIndexedNode d B"
    and "hasFieldOfType d A B" and "hasFieldOfType d B A"
    and "declaresFieldNamesOnce d A" and "declaresFieldNamesOnce d B"
    and "rootNode \<in> set rootNodes" and "fieldName \<in> set (FieldNames rootNode)"
    and "rootFieldTypeName d rootNode fieldName = Some t" and "t = A \<or> t = B"
  shows "\<exists>childNodes tfA tfB.
           getAllChildNodes d rootNodes = Inr childNodes
         \<and> filter (\<lambda>tf. TypeName tf = A) childNodes = [tfA]
         \<and> filter (\<lambda>tf. TypeName tf = B) childNodes = [tfB]
         \<and> TypeName tfA = A \<and> TypeName tfB = B
         \<and> distinct (FieldNames tfA) \<and> set (FieldNames tfA) = set (declaredFieldNames d A)
         \<and> distinct (FieldNames tfB) \<and> set (FieldNames tfB) = set (declaredFieldNames d B)"
proof -
  note a = declaredByIndexedNode_fields [OF assms(2)]
  note b = declaredByIndexedNode_fields [OF assms(3)]
  from assms(4) have ab: "indexedNodeHasFieldOfType d A B" by (simp add: a(3))
  from assms(5) have ba: "indexedNodeHasFieldOfType d B A" by (simp add: b(3))
  from assms(6) have onceA: "indexedNodeFieldNamesOnce d A" by (simp add: a(4))
  from assms(7) have onceB: "indexedNodeFieldNamesOnce d B" by (simp add: b(4))
  from cycle_child_records [OF assms(1) a(1) b(1) ab ba onceA onceB assms(8-11)]
  show ?thesis unfolding a(2) b(2) .
qed

text \<open>C1 at \<open>exDoc\<close>: \<open>Foo\<close> and \<open>Bar\<close> refer to each other, and the root field \<open>a\<close> of
  \<open>Query\<close> has the return type \<open>Foo\<close>.\<close>

theorem C1_cycle_terminates_witness:
  "wf_document exDoc
   \<and> declaredByIndexedNode exDoc ''Foo'' \<and> declaredByIndexedNode exDoc ''Bar''
   \<and> hasFieldOfType exDoc ''Foo'' ''Bar'' \<and> hasFieldOfType exDoc ''Bar'' ''Foo''
   \<and> declaresFieldNamesOnce exDoc ''Foo'' \<and> declaresFieldNamesOnce exDoc ''Bar''
   \<and> \<lparr>TypeName = ''Query'', FieldNames = [''a'']\<rparr> \<in> set exRootNodes
   \<and> rootFieldTypeName exDoc \<lparr>TypeName = ''Query'', FieldNames = [''a'']\<rparr> ''a'' = Some ''Foo''
   \<and> (\<exists>childNodes tfA tfB.
         getAllChildNodes exDoc exRootNodes = Inr childNodes
       \<and> filter (\<lambda>tf. TypeName tf = ''Foo'') childNodes = [tfA]
       \<and> filter (\<lambda>tf. TypeName tf = ''Bar'') childNodes = [tfB]
       \<and> TypeName tfA = ''Foo'' \<and> TypeName tfB = ''Bar''
       \<and> distinct (FieldNames tfA) \<and> set (FieldNames tfA) = set (declaredFieldNames exDoc ''Foo'')
       \<and> distinct (FieldNames tfB) \<and> set (FieldNames tfB) = set (declaredFieldNames exDoc ''Bar''))"
proof -
  let ?root = "\<lparr>TypeName = ''Query'', FieldNames = [''a'']\<rparr>"
  have h2: "declaredByIndexedNode exDoc ''Foo''" and h3: "declaredByIndexedNode exDoc ''Bar''"
    and h4: "hasFieldOfType exDoc ''Foo'' ''Bar''" and h5: "hasFieldOfType exDoc ''Bar'' ''Foo''"
    and h6: "declaresFieldNamesOnce exDoc ''Foo''" and h7: "declaresFieldNamesOnce exDoc ''Bar''"
    by code_simp+
  have h8: "?root \<in> set exRootNodes" by (simp add: exRootNodes_def)
  have h9: "''a'' \<in> set (FieldNames ?root)" by simp
  have h10: "rootFieldTypeName exDoc ?root ''a'' = Some ''Foo''" by code_simp
  have h11: "''Foo'' = ''Foo'' \<or> ''Foo'' = ''Bar''" by simp
  from C1_cycle_terminates [OF wf_exDoc h2 h3 h4 h5 h6 h7 h8 h9 h10 h11]
    wf_exDoc h2 h3 h4 h5 h6 h7 h8 h10
  show ?thesis by blast
qed

text \<open>
  C1 as stated fails in two ways. In \<open>shadowDoc\<close> each type is declared by its one
  indexed node, but \<open>A\<close> declares the field name \<open>b\<close> twice: the walk of \<open>A\<close> registers
  \<open>b\<close> with the first definition, of return type \<open>String\<close>, and passes over the second,
  of return type \<open>B\<close>, so the child set has no record for \<open>B\<close>. In \<open>extCycleDoc\<close> no
  field name is declared twice, but the field \<open>b\<close> of \<open>A\<close> is declared by an extension:
  the walk of \<open>A\<close> reads the definition of \<open>A\<close> only, so the record of \<open>A\<close> lacks \<open>b\<close>
  and the child set has no record for \<open>B\<close>. In both documents the root field \<open>a\<close> of
  the entity \<open>B\<close> has the return type \<open>A\<close>.
\<close>

theorem C1_counterexample:
  "(wf_document shadowDoc
    \<and> declaredByIndexedNode shadowDoc ''A'' \<and> declaredByIndexedNode shadowDoc ''B''
    \<and> hasFieldOfType shadowDoc ''A'' ''B'' \<and> hasFieldOfType shadowDoc ''B'' ''A''
    \<and> rootFieldTypeName shadowDoc \<lparr>TypeName = ''B'', FieldNames = [''a'']\<rparr> ''a'' = Some ''A''
    \<and> GetAllNodes failResolver exExtractor (exMemory shadowDoc) =
        Inr (([\<lparr>TypeName = ''B'', FieldNames = [''a'']\<rparr>],
              [\<lparr>TypeName = ''A'', FieldNames = [''b'']\<rparr>]),
             \<lparr>heap = [shadowDoc], baseSchemaCalls = 2\<rparr>)
    \<and> filter (\<lambda>tf. TypeName tf = ''B'') [\<lparr>TypeName = ''A'', FieldNames = [''b'']\<rparr>] = [])
   \<and> (wf_document extCycleDoc
    \<and> declaresFieldNamesOnce extCycleDoc ''A'' \<and> declaresFieldNamesOnce extCycleDoc ''B''
    \<and> hasFieldOfType extCycleDoc ''A'' ''B'' \<and> hasFieldOfType extCycleDoc ''B'' ''A''
    \<and> rootFieldTypeName extCycleDoc \<lparr>TypeName = ''B'', FieldNames = [''a'']\<rparr> ''a'' = Some ''A''
    \<and> GetAllNodes failResolver exExtractor (exMemory extCycleDoc) =
        Inr (([\<lparr>TypeName = ''B'', FieldNames = [''a'']\<rparr>],
              [\<lparr>TypeName = ''A'', FieldNames = [''x'']\<rparr>]),
             \<lparr>heap = [extCycleDoc], baseSchemaCalls = 3\<rparr>)
    \<and> declaredFieldNames extCycleDoc ''A'' = [''x'', ''b'']
    \<and> filter (\<lambda>tf. TypeName tf = ''B'') [\<lparr>TypeName = ''A'', FieldNames = [''x'']\<rparr>] = [])"
proof -
  have "declaredByIndexedNode shadowDoc ''A''" and "declaredByIndexedNode shadowDoc ''B''"
    and "hasFieldOfType shadowDoc ''A'' ''B''" and "hasFieldOfType shadowDoc ''B'' ''A''"
    by code_simp+
  moreover have
    "rootFieldTypeName shadowDoc \<lparr>TypeName = ''B'', FieldNames = [''a'']\<rparr> ''a'' = Some ''A''"
    by code_simp
  moreover have "GetAllNodes failResolver exExtractor (exMemory shadowDoc) =
       Inr (([\<lparr>TypeName = ''B'', FieldNames = [''a'']\<rparr>],
             [\<lparr>TypeName = ''A'', FieldNames = [''b'']\<rparr>]),
            \<lparr>heap = [shadowDoc], baseSchemaCalls = 2\<rparr>)"
    by code_simp
  moreover have "declaresFieldNamesOnce extCycleDoc ''A''"
    and "declaresFieldNamesOnce extCycleDoc ''B''"
    and "hasFieldOfType extCycleDoc ''A'' ''B''" and "hasFieldOfType extCycleDoc ''B'' ''A''"
    by code_simp+
  moreover have
    "rootFieldTypeName extCycleDoc \<lparr>TypeName = ''B'', FieldNames = [''a'']\<rparr> ''a'' = Some ''A''"
    by code_simp
  moreover have "GetAllNodes failResolver exExtractor (exMemory extCycleDoc) =
       Inr (([\<lparr>TypeName = ''B'', FieldNames = [''a'']\<rparr>],
             [\<lparr>TypeName = ''A'', FieldNames = [''x'']\<rparr>]),
            \<lparr>heap = [extCycleDoc], baseSchemaCalls = 3\<rparr>)"
    by code_simp
  moreover have "declaredFieldNames extCycleDoc ''A'' = [''x'', ''b'']" by code_simp
  ultimately show ?thesis using wf_shadowDoc wf_extCycleDoc by simp
qed

subsection \<open>C2\<close>

text \<open>
  C2, as amended. No two records of the child set have the same type name. The root set
  has one record for each qualifying top-level node, so its type names are distinct when
  the top-level object type nodes of the document have distinct names.
\<close>

theorem C2_one_record_per_type:
  assumes "GetAllNodes res r m = Inr ((rootNodes, childNodes), m')"
    and "deref m (document r) = Inr d"
  shows "distinct (map TypeName childNodes)
       \<and> (distinct (map (NodeNameString d) (filter isObjectTypeNode (RootNodes d)))
            \<longrightarrow> distinct (map TypeName rootNodes))"
proof
  note r = GetAllNodes_result_at [OF assms]
  show "distinct (map TypeName childNodes)"
    by (rule getAllChildNodes_invariant [where P = "\<lambda>cn. distinct (map TypeName cn)", OF _ _ r(3)])
       (auto dest: addChild_distinct_TypeNames)
  show "distinct (map (NodeNameString d) (filter isObjectTypeNode (RootNodes d)))
          \<longrightarrow> distinct (map TypeName rootNodes)"
    using rootEntries_TypeNames [OF r(2)] by blast
qed

text \<open>C2 at \<open>exDoc\<close>.\<close>

theorem C2_one_record_per_type_witness:
  "GetAllNodes (okResolver exDoc) exExtractor (exMemory exDoc) =
     Inr ((exRootNodes, exChildNodes), exMemoryAfter)
   \<and> deref (exMemory exDoc) (document exExtractor) = Inr exDoc
   \<and> distinct (map (NodeNameString exDoc) (filter isObjectTypeNode (RootNodes exDoc)))
   \<and> distinct (map TypeName exChildNodes) \<and> distinct (map TypeName exRootNodes)"
proof -
  have "distinct (map (NodeNameString exDoc) (filter isObjectTypeNode (RootNodes exDoc)))"
    by code_simp
  with C2_one_record_per_type [OF exDoc_GetAllNodes exDoc_deref]
    exDoc_GetAllNodes exDoc_deref show ?thesis by blast
qed

text \<open>
  C2 as stated fails for the root set: \<open>dupTypeDoc\<close> declares \<open>User\<close> as a definition and
  as an extension, and each node adds its own record.
\<close>

theorem C2_counterexample:
  "GetAllNodes failResolver exExtractor (exMemory dupTypeDoc) =
     Inr ((dupTypeRootNodes, []), \<lparr>heap = [dupTypeDoc], baseSchemaCalls = 2\<rparr>)
   \<and> \<not> distinct (map TypeName dupTypeRootNodes)"
  using dupTypeDoc_GetAllNodes by (simp add: dupTypeRootNodes_def)

subsection \<open>C3\<close>

text \<open>
  C3, as amended. \<^verbatim>\<open>baseSchema\<close> is invoked once for every top-level object type
  definition or object type extension of the document, by \<^verbatim>\<open>addRootNodes\<close> during root
  collection: not at all when the document has none, \<open>n\<close> times when it has \<open>n\<close>.
\<close>

theorem C3_baseSchema_once_per_object_node:
  assumes "GetAllNodes res r m = Inr ((rootNodes, childNodes), m')"
    and "deref m (document r) = Inr d"
  shows "baseSchemaCalls m' = baseSchemaCalls m + length (filter isObjectTypeNode (RootNodes d))"
  by (rule GetAllNodes_result_at(1) [OF assms])

text \<open>C3 at \<open>exDoc\<close>, which has three object type definitions.\<close>

theorem C3_baseSchema_once_per_object_node_witness:
  "GetAllNodes (okResolver exDoc) exExtractor (exMemory exDoc) =
     Inr ((exRootNodes, exChildNodes), exMemoryAfter)
   \<and> deref (exMemory exDoc) (document exExtractor) = Inr exDoc
   \<and> baseSchemaCalls exMemoryAfter =
       baseSchemaCalls (exMemory exDoc) + length (filter isObjectTypeNode (RootNodes exDoc))"
  using C3_baseSchema_once_per_object_node [OF exDoc_GetAllNodes exDoc_deref]
    exDoc_GetAllNodes exDoc_deref by simp

text \<open>
  C3 as stated fails: one extraction from \<open>exDoc\<close> invokes \<^verbatim>\<open>baseSchema\<close> three times.
\<close>

theorem C3_counterexample:
  "GetAllNodes (okResolver exDoc) exExtractor (exMemory exDoc) =
     Inr ((exRootNodes, exChildNodes), exMemoryAfter)
   \<and> baseSchemaCalls exMemoryAfter = baseSchemaCalls (exMemory exDoc) + 3"
  using exDoc_GetAllNodes by (simp add: exMemoryAfter_def exMemory_def)

subsection \<open>C4\<close>

text \<open>
  C4, as amended. Every record of the root set comes from one top-level object type
  definition or extension of its type name, and lists the names of exactly those field
  definitions of that node that do not carry the \<open>external\<close> directive, in declaration
  order. So the name of a field definition of the node that carries the directive is not
  in the record of the node, unless the same node has a field definition of that name
  without the directive.
\<close>

theorem C4_root_excludes_external:
  assumes "GetAllNodes res r m = Inr ((rootNodes, childNodes), m')"
    and "deref m (document r) = Inr d"
    and "tf \<in> set rootNodes"
  shows "\<exists>astNode fieldRefs.
           astNode \<in> set (RootNodes d) \<and> isObjectTypeNode astNode
         \<and> NodeNameString d astNode = Inr (TypeName tf)
         \<and> NodeFieldDefinitions d astNode = Inr fieldRefs
         \<and> FieldNames tf =
             map (\<lambda>fieldRef. fd_Name (FieldDefinitions d ! fieldRef))
               (filter (\<lambda>fieldRef. \<not> isExternalField d fieldRef) fieldRefs)
         \<and> (\<forall>fieldRef \<in> set fieldRefs.
               isExternalField d fieldRef
             \<and> (\<forall>other \<in> set fieldRefs.
                   fd_Name (FieldDefinitions d ! other) = fd_Name (FieldDefinitions d ! fieldRef)
                   \<longrightarrow> isExternalField d other)
             \<longrightarrow> fd_Name (FieldDefinitions d ! fieldRef) \<notin> set (FieldNames tf))"
proof -
  note r = GetAllNodes_result_at [OF assms(1,2)]
  from rootEntries_record [OF r(2) assms(3)] obtain astNode where
    n: "astNode \<in> set (RootNodes d)" "isObjectTypeNode astNode"
       "rootNodeEntry res d astNode = Inr [tf]" by blast
  from rootNodeEntry_record [OF n(3), of tf] obtain fieldRefs where
    f: "NodeNameString d astNode = Inr (TypeName tf)"
       "NodeFieldDefinitions d astNode = Inr fieldRefs"
       "FieldNames tf =
          map (\<lambda>fieldRef. fd_Name (FieldDefinitions d ! fieldRef))
            (filter (\<lambda>fieldRef. \<not> isExternalField d fieldRef) fieldRefs)"
    unfolding localFieldNames_def by auto
  have "\<forall>fieldRef \<in> set fieldRefs.
               isExternalField d fieldRef
             \<and> (\<forall>other \<in> set fieldRefs.
                   fd_Name (FieldDefinitions d ! other) = fd_Name (FieldDefinitions d ! fieldRef)
                   \<longrightarrow> isExternalField d other)
             \<longrightarrow> fd_Name (FieldDefinitions d ! fieldRef) \<notin> set (FieldNames tf)"
    unfolding f(3) by auto
  with n(1,2) f show ?thesis by blast
qed

text \<open>
  C4 at the entity \<open>Foo\<close> of \<open>exDoc\<close>: its field definition 3, \<open>secret\<close>, is external, no
  other field of \<open>Foo\<close> has this name, and the root record of \<open>Foo\<close> lists \<open>id\<close> and \<open>b\<close>.
\<close>

theorem C4_root_excludes_external_witness:
  "GetAllNodes (okResolver exDoc) exExtractor (exMemory exDoc) =
     Inr ((exRootNodes, exChildNodes), exMemoryAfter)
   \<and> deref (exMemory exDoc) (document exExtractor) = Inr exDoc
   \<and> \<lparr>TypeName = ''Foo'', FieldNames = [''id'', ''b'']\<rparr> \<in> set exRootNodes
   \<and> isExternalField exDoc 3
   \<and> fd_Name (FieldDefinitions exDoc ! 3) = ''secret''
   \<and> (\<exists>astNode fieldRefs.
         astNode \<in> set (RootNodes exDoc) \<and> isObjectTypeNode astNode
       \<and> NodeNameString exDoc astNode = Inr ''Foo''
       \<and> NodeFieldDefinitions exDoc astNode = Inr fieldRefs
       \<and> [''id'', ''b''] =
           map (\<lambda>fieldRef. fd_Name (FieldDefinitions exDoc ! fieldRef))
             (filter (\<lambda>fieldRef. \<not> isExternalField exDoc fieldRef) fieldRefs)
       \<and> 3 \<in> set fieldRefs
       \<and> ''secret'' \<notin> set [''id'', ''b''])"
proof -
  let ?foo = "\<lparr>TypeName = ''Foo'', FieldNames = [''id'', ''b'']\<rparr>"
  have mem: "?foo \<in> set exRootNodes" by (simp add: exRootNodes_def)
  have ext: "isExternalField exDoc 3" by code_simp
  have nm: "fd_Name (FieldDefinitions exDoc ! 3) = ''secret''" by code_simp
  from C4_root_excludes_external [OF exDoc_GetAllNodes exDoc_deref mem]
  obtain astNode fieldRefs where
    a0: "astNode \<in> set (RootNodes exDoc)" "isObjectTypeNode astNode"
       "NodeNameString exDoc astNode = Inr (TypeName ?foo)"
       "NodeFieldDefinitions exDoc astNode = Inr fieldRefs"
       "FieldNames ?foo =
           map (\<lambda>fieldRef. fd_Name (FieldDefinitions exDoc ! fieldRef))
             (filter (\<lambda>fieldRef. \<not> isExternalField exDoc fieldRef) fieldRefs)"
    and b: "\<forall>fieldRef \<in> set fieldRefs.
               isExternalField exDoc fieldRef
             \<and> (\<forall>other \<in> set fieldRefs.
                   fd_Name (FieldDefinitions exDoc ! other)
                     = fd_Name (FieldDefinitions exDoc ! fieldRef)
                   \<longrightarrow> isExternalField exDoc other)
             \<longrightarrow> fd_Name (FieldDefinitions exDoc ! fieldRef) \<notin> set (FieldNames ?foo)"
    by blast
  from a0 have
    a: "astNode \<in> set (RootNodes exDoc)" "isObjectTypeNode astNode"
       "NodeNameString exDoc astNode = Inr ''Foo''"
       "NodeFieldDefinitions exDoc astNode = Inr fieldRefs"
       "[''id'', ''b''] =
           map (\<lambda>fieldRef. fd_Name (FieldDefinitions exDoc ! fieldRef))
             (filter (\<lambda>fieldRef. \<not> isExternalField exDoc fieldRef) fieldRefs)"
    by simp_all
  from a(1) have
    "astNode = \<lparr>Kind = NodeKindObjectTypeDefinition, Ref = 0\<rparr>
     \<or> astNode = \<lparr>Kind = NodeKindObjectTypeDefinition, Ref = 1\<rparr>
     \<or> astNode = \<lparr>Kind = NodeKindObjectTypeDefinition, Ref = 2\<rparr>"
    by (simp add: exDoc_def)
  with a(3) have "astNode = \<lparr>Kind = NodeKindObjectTypeDefinition, Ref = 1\<rparr>"
    by (auto simp: NodeNameString_def at_def exDoc_def)
  with a(4) have refs: "fieldRefs = [1, 2, 3]"
    by (simp add: NodeFieldDefinitions_def at_def exDoc_def)
  then have three: "3 \<in> set fieldRefs" by simp
  have "\<forall>other \<in> set fieldRefs.
          fd_Name (FieldDefinitions exDoc ! other) = fd_Name (FieldDefinitions exDoc ! 3)
          \<longrightarrow> isExternalField exDoc other"
    using ext by (simp add: refs exDoc_def)
  with b three ext have "fd_Name (FieldDefinitions exDoc ! 3) \<notin> set (FieldNames ?foo)"
    by blast
  then have absent: "''secret'' \<notin> set [''id'', ''b'']" by (simp add: nm)
  have
    "\<exists>astNode fieldRefs.
         astNode \<in> set (RootNodes exDoc) \<and> isObjectTypeNode astNode
       \<and> NodeNameString exDoc astNode = Inr ''Foo''
       \<and> NodeFieldDefinitions exDoc astNode = Inr fieldRefs
       \<and> [''id'', ''b''] =
           map (\<lambda>fieldRef. fd_Name (FieldDefinitions exDoc ! fieldRef))
             (filter (\<lambda>fieldRef. \<not> isExternalField exDoc fieldRef) fieldRefs)
       \<and> 3 \<in> set fieldRefs
       \<and> ''secret'' \<notin> set [''id'', ''b'']"
    by (intro exI [of _ astNode] exI [of _ fieldRefs] conjI) (fact a three absent)+
  with exDoc_GetAllNodes exDoc_deref mem ext nm show ?thesis by (intro conjI)
qed

text \<open>
  C4 as stated fails in two ways. In \<open>dupExternalDoc\<close> the field definition 0 of \<open>Foo\<close>
  is named \<open>id\<close> and carries \<open>external\<close>, and the root record of \<open>Foo\<close> lists \<open>id\<close>,
  for the field definition 1 of the same name. In \<open>splitExternalDoc\<close> the field
  definition 1, named \<open>id\<close>, of the extension of \<open>User\<close> carries \<open>external\<close>, and the
  root set has the record of the definition of \<open>User\<close>, which lists \<open>id\<close>.
\<close>

theorem C4_counterexample:
  "(GetAllNodes failResolver exExtractor (exMemory dupExternalDoc) =
      Inr (([\<lparr>TypeName = ''Foo'', FieldNames = [''id'']\<rparr>], []),
           \<lparr>heap = [dupExternalDoc], baseSchemaCalls = 1\<rparr>)
    \<and> NodeNameString dupExternalDoc \<lparr>Kind = NodeKindObjectTypeDefinition, Ref = 0\<rparr> = Inr ''Foo''
    \<and> NodeFieldDefinitions dupExternalDoc \<lparr>Kind = NodeKindObjectTypeDefinition, Ref = 0\<rparr>
        = Inr [0, 1]
    \<and> isExternalField dupExternalDoc 0
    \<and> FieldDefinitionNameString dupExternalDoc 0 = Inr ''id''
    \<and> ''id'' \<in> set (FieldNames \<lparr>TypeName = ''Foo'', FieldNames = [''id'']\<rparr>))
   \<and> (GetAllNodes failResolver exExtractor (exMemory splitExternalDoc) =
      Inr (([\<lparr>TypeName = ''User'', FieldNames = [''id'']\<rparr>,
             \<lparr>TypeName = ''User'', FieldNames = [''name'']\<rparr>], []),
           \<lparr>heap = [splitExternalDoc], baseSchemaCalls = 2\<rparr>)
    \<and> NodeNameString splitExternalDoc \<lparr>Kind = NodeKindObjectTypeExtension, Ref = 1\<rparr>
        = Inr ''User''
    \<and> NodeFieldDefinitions splitExternalDoc \<lparr>Kind = NodeKindObjectTypeExtension, Ref = 1\<rparr>
        = Inr [1, 2]
    \<and> isExternalField splitExternalDoc 1
    \<and> FieldDefinitionNameString splitExternalDoc 1 = Inr ''id''
    \<and> ''id'' \<in> set (FieldNames \<lparr>TypeName = ''User'', FieldNames = [''id'']\<rparr>))"
proof -
  have "GetAllNodes failResolver exExtractor (exMemory dupExternalDoc) =
      Inr (([\<lparr>TypeName = ''Foo'', FieldNames = [''id'']\<rparr>], []),
           \<lparr>heap = [dupExternalDoc], baseSchemaCalls = 1\<rparr>)"
    by code_simp
  moreover have
    "NodeNameString dupExternalDoc \<lparr>Kind = NodeKindObjectTypeDefinition, Ref = 0\<rparr> = Inr ''Foo''"
    "NodeFieldDefinitions dupExternalDoc \<lparr>Kind = NodeKindObjectTypeDefinition, Ref = 0\<rparr>
        = Inr [0, 1]"
    "isExternalField dupExternalDoc 0"
    "FieldDefinitionNameString dupExternalDoc 0 = Inr ''id''"
    by code_simp+
  moreover have "GetAllNodes failResolver exExtractor (exMemory splitExternalDoc) =
      Inr (([\<lparr>TypeName = ''User'', FieldNames = [''id'']\<rparr>,
             \<lparr>TypeName = ''User'', FieldNames = [''name'']\<rparr>], []),
           \<lparr>heap = [splitExternalDoc], baseSchemaCalls = 2\<rparr>)"
    by code_simp
  moreover have
    "NodeNameString splitExternalDoc \<lparr>Kind = NodeKindObjectTypeExtension, Ref = 1\<rparr>
        = Inr ''User''"
    "NodeFieldDefinitions splitExternalDoc \<lparr>Kind = NodeKindObjectTypeExtension, Ref = 1\<rparr>
        = Inr [1, 2]"
    "isExternalField splitExternalDoc 1"
    "FieldDefinitionNameString splitExternalDoc 1 = Inr ''id''"
    by code_simp+
  ultimately show ?thesis by simp
qed

subsection \<open>C5\<close>

text \<open>
  C5, as amended. When the base-schema resolution fails, the extraction from a well-formed
  document still returns its result, and every top-level object type definition or object
  type extension that carries a directive named \<open>key\<close> and has a field definition
  without the \<open>external\<close> directive is in the root set, with the names of those field
  definitions.
\<close>

theorem C5_entity_when_resolution_fails:
  assumes "deref m (document r) = Inr d" and "wf_document d"
    and "baseSchemaDocument res d = None"
    and "astNode \<in> set (RootNodes d)" and "isObjectTypeNode astNode"
    and "isEntity d astNode = Inr True"
    and "NodeNameString d astNode = Inr typeName"
    and "NodeFieldDefinitions d astNode = Inr fieldRefs"
    and "localFieldNames d fieldRefs \<noteq> []"
  shows "\<exists>rootNodes childNodes m'.
           GetAllNodes res r m = Inr ((rootNodes, childNodes), m')
         \<and> \<lparr>TypeName = typeName, FieldNames = localFieldNames d fieldRefs\<rparr> \<in> set rootNodes"
proof -
  from GetAllNodes_total [OF assms(2,1), of res] obtain rootNodes childNodes m' where
    g: "GetAllNodes res r m = Inr ((rootNodes, childNodes), m')"
    and es: "rootEntries res d (RootNodes d) = Inr rootNodes" by blast
  from assms(2) assms(4) have wn: "wf_node d astNode" by (simp add: wf_document_def list_all_iff)
  from wf_node_lookups(2) [OF assms(2) wn] assms(8) have
    "list_all (\<lambda>ref. ref < length (FieldDefinitions d)) fieldRefs" by simp
  from rootFieldNames_total [OF assms(2) this, of "[]"] obtain names where
    names: "rootFieldNames d fieldRefs [] = Inr names" ..
  from rootFieldNames_result [OF names] have "names = localFieldNames d fieldRefs" by simp
  with names assms(6-9) have
    "rootNodeEntry res d astNode = Inr [\<lparr>TypeName = typeName, FieldNames = localFieldNames d fieldRefs\<rparr>]"
    by (simp add: rootNodeEntry_def)
  from rootEntries_member [OF es assms(4,5) this] g show ?thesis by blast
qed

text \<open>C5 at the entity \<open>Foo\<close> of \<open>exDoc\<close>, with the failing resolver.\<close>

theorem C5_entity_when_resolution_fails_witness:
  "deref (exMemory exDoc) (document exExtractor) = Inr exDoc \<and> wf_document exDoc
   \<and> baseSchemaDocument failResolver exDoc = None
   \<and> \<lparr>Kind = NodeKindObjectTypeDefinition, Ref = 1\<rparr> \<in> set (RootNodes exDoc)
   \<and> isObjectTypeNode \<lparr>Kind = NodeKindObjectTypeDefinition, Ref = 1\<rparr>
   \<and> isEntity exDoc \<lparr>Kind = NodeKindObjectTypeDefinition, Ref = 1\<rparr> = Inr True
   \<and> NodeNameString exDoc \<lparr>Kind = NodeKindObjectTypeDefinition, Ref = 1\<rparr> = Inr ''Foo''
   \<and> NodeFieldDefinitions exDoc \<lparr>Kind = NodeKindObjectTypeDefinition, Ref = 1\<rparr> = Inr [1, 2, 3]
   \<and> localFieldNames exDoc [1, 2, 3] = [''id'', ''b'']
   \<and> (\<exists>rootNodes childNodes m'.
         GetAllNodes failResolver exExtractor (exMemory exDoc) = Inr ((rootNodes, childNodes), m')
       \<and> \<lparr>TypeName = ''Foo'', FieldNames = [''id'', ''b'']\<rparr> \<in> set rootNodes)"
proof -
  let ?n = "\<lparr>Kind = NodeKindObjectTypeDefinition, Ref = 1\<rparr>"
  have h3: "baseSchemaDocument failResolver exDoc = None"
    by (simp add: baseSchemaDocument_def failResolver_def)
  have h4: "?n \<in> set (RootNodes exDoc)" by (simp add: exDoc_def)
  have h5: "isObjectTypeNode ?n" by (simp add: isObjectTypeNode_def)
  have h6: "isEntity exDoc ?n = Inr True" by code_simp
  have h7: "NodeNameString exDoc ?n = Inr ''Foo''" by code_simp
  have h8: "NodeFieldDefinitions exDoc ?n = Inr [1, 2, 3]" by code_simp
  have h9: "localFieldNames exDoc [1, 2, 3] = [''id'', ''b'']" by code_simp
  then have h9': "localFieldNames exDoc [1, 2, 3] \<noteq> []" by simp
  from C5_entity_when_resolution_fails [OF exDoc_deref wf_exDoc h3 h4 h5 h6 h7 h8 h9']
    exDoc_deref wf_exDoc h3 h4 h5 h6 h7 h8 h9
  show ?thesis by simp
qed

text \<open>
  C5 as stated fails for a top-level type that is not an object type: the interface of
  \<open>ifaceDoc\<close> carries \<open>key\<close> and has the field \<open>id\<close>, the resolution fails, and the
  root set is empty, since \<^verbatim>\<open>getAllRootNodes\<close> only looks at object type definitions and
  extensions.
\<close>

theorem C5_counterexample:
  "baseSchemaDocument failResolver ifaceDoc = None
   \<and> RootNodes ifaceDoc = [\<lparr>Kind = NodeKindInterfaceTypeDefinition, Ref = 0\<rparr>]
   \<and> isEntity ifaceDoc \<lparr>Kind = NodeKindInterfaceTypeDefinition, Ref = 0\<rparr> = Inr True
   \<and> NodeFieldDefinitions ifaceDoc \<lparr>Kind = NodeKindInterfaceTypeDefinition, Ref = 0\<rparr> = Inr [0]
   \<and> localFieldNames ifaceDoc [0] = [''id'']
   \<and> GetAllNodes failResolver exExtractor (exMemory ifaceDoc) =
       Inr (([], []), \<lparr>heap = [ifaceDoc], baseSchemaCalls = 0\<rparr>)"
proof -
  have "baseSchemaDocument failResolver ifaceDoc = None"
    by (simp add: baseSchemaDocument_def failResolver_def)
  moreover have "RootNodes ifaceDoc = [\<lparr>Kind = NodeKindInterfaceTypeDefinition, Ref = 0\<rparr>]"
    by (simp add: ifaceDoc_def)
  moreover have "isEntity ifaceDoc \<lparr>Kind = NodeKindInterfaceTypeDefinition, Ref = 0\<rparr> = Inr True"
    by code_simp
  moreover have "NodeFieldDefinitions ifaceDoc \<lparr>Kind = NodeKindInterfaceTypeDefinition, Ref = 0\<rparr> = Inr [0]"
    by code_simp
  moreover have "localFieldNames ifaceDoc [0] = [''id'']"
    by code_simp
  ultimately show ?thesis using ifaceDoc_GetAllNodes by blast
qed

subsection \<open>C6\<close>

text \<open>
  C6. No record of the root set returned by \<^verbatim>\<open>GetAllNodes\<close> has an empty list of field
  names: a node whose field names are all filtered out adds no record.
\<close>

theorem C6_root_records_nonempty:
  assumes "GetAllNodes res r m = Inr ((rootNodes, childNodes), m')"
    and "tf \<in> set rootNodes"
  shows "FieldNames tf \<noteq> []"
proof -
  from GetAllNodes_result [OF assms(1)] obtain d where
    "rootEntries res d (RootNodes d) = Inr rootNodes" by blast
  from rootEntries_nonempty [OF this assms(2)] show ?thesis .
qed

theorem C6_root_records_nonempty_witness:
  "FieldNames \<lparr>TypeName = ''Foo'', FieldNames = [''id'', ''b'']\<rparr> \<noteq> []
   \<and> GetAllNodes (okResolver exDoc) exExtractor (exMemory exDoc) =
       Inr ((exRootNodes, exChildNodes), exMemoryAfter)
   \<and> \<lparr>TypeName = ''Foo'', FieldNames = [''id'', ''b'']\<rparr> \<in> set exRootNodes"
proof -
  have mem: "\<lparr>TypeName = ''Foo'', FieldNames = [''id'', ''b'']\<rparr> \<in> set exRootNodes"
    by (simp add: exRootNodes_def)
  from C6_root_records_nonempty [OF exDoc_GetAllNodes mem] exDoc_GetAllNodes mem
  show ?thesis by blast
qed

subsection \<open>C7\<close>

text \<open>
  C7, as amended. Every record of the child set lists each field name at most once. A
  record of the root set lists each field name at most once when no top-level node of the
  document declares a field name twice; the root collection removes no duplicate.
\<close>

theorem C7_field_names_once:
  assumes "GetAllNodes res r m = Inr ((rootNodes, childNodes), m')"
    and "deref m (document r) = Inr d"
  shows "(\<forall>tf \<in> set childNodes. distinct (FieldNames tf))
       \<and> ((\<forall>astNode \<in> set (RootNodes d). \<forall>fieldRefs.
              NodeFieldDefinitions d astNode = Inr fieldRefs
                \<longrightarrow> distinct (map (FieldDefinitionNameString d) fieldRefs))
            \<longrightarrow> (\<forall>tf \<in> set rootNodes. distinct (FieldNames tf)))"
proof
  note r = GetAllNodes_result_at [OF assms]
  show "\<forall>tf \<in> set childNodes. distinct (FieldNames tf)"
    by (rule getAllChildNodes_invariant
          [where P = "\<lambda>cn. \<forall>tf \<in> set cn. distinct (FieldNames tf)", OF _ _ r(3)])
       (auto dest: addChild_distinct_FieldNames)
  show "(\<forall>astNode \<in> set (RootNodes d). \<forall>fieldRefs.
              NodeFieldDefinitions d astNode = Inr fieldRefs
                \<longrightarrow> distinct (map (FieldDefinitionNameString d) fieldRefs))
            \<longrightarrow> (\<forall>tf \<in> set rootNodes. distinct (FieldNames tf))"
  proof (intro impI ballI)
    fix tf
    assume declared: "\<forall>astNode \<in> set (RootNodes d). \<forall>fieldRefs.
              NodeFieldDefinitions d astNode = Inr fieldRefs
                \<longrightarrow> distinct (map (FieldDefinitionNameString d) fieldRefs)"
      and tf: "tf \<in> set rootNodes"
    from rootEntries_record [OF r(2) tf] obtain astNode where
      n: "astNode \<in> set (RootNodes d)" "rootNodeEntry res d astNode = Inr [tf]" by blast
    from rootNodeEntry_record [OF n(2), of tf] obtain fieldRefs where
      f: "NodeFieldDefinitions d astNode = Inr fieldRefs"
         "\<forall>ref \<in> set fieldRefs. ref < length (FieldDefinitions d)"
         "FieldNames tf = localFieldNames d fieldRefs" by auto
    from declared n(1) f(1) have "distinct (map (FieldDefinitionNameString d) fieldRefs)" by blast
    from localFieldNames_distinct [OF this f(2)] f(3) show "distinct (FieldNames tf)" by simp
  qed
qed

text \<open>C7 at \<open>exDoc\<close>.\<close>

theorem C7_field_names_once_witness:
  "GetAllNodes (okResolver exDoc) exExtractor (exMemory exDoc) =
     Inr ((exRootNodes, exChildNodes), exMemoryAfter)
   \<and> deref (exMemory exDoc) (document exExtractor) = Inr exDoc
   \<and> list_all (\<lambda>astNode. case NodeFieldDefinitions exDoc astNode of
         Inl e \<Rightarrow> True
       | Inr fieldRefs \<Rightarrow> distinct (map (FieldDefinitionNameString exDoc) fieldRefs)) (RootNodes exDoc)
   \<and> list_all (\<lambda>tf. distinct (FieldNames tf)) exChildNodes
   \<and> list_all (\<lambda>tf. distinct (FieldNames tf)) exRootNodes"
proof -
  have h: "list_all (\<lambda>astNode. case NodeFieldDefinitions exDoc astNode of
         Inl e \<Rightarrow> True
       | Inr fieldRefs \<Rightarrow> distinct (map (FieldDefinitionNameString exDoc) fieldRefs)) (RootNodes exDoc)"
    by code_simp
  then have "\<forall>astNode \<in> set (RootNodes exDoc). \<forall>fieldRefs.
              NodeFieldDefinitions exDoc astNode = Inr fieldRefs
                \<longrightarrow> distinct (map (FieldDefinitionNameString exDoc) fieldRefs)"
    by (auto simp: list_all_iff)
  with C7_field_names_once [OF exDoc_GetAllNodes exDoc_deref] h
    exDoc_GetAllNodes exDoc_deref show ?thesis by (simp add: list_all_iff)
qed

text \<open>
  C7 as stated fails for the root set: the type of \<open>dupFieldDoc\<close> declares \<open>a\<close> twice and
  its root record lists \<open>a\<close> twice.
\<close>

theorem C7_counterexample:
  "GetAllNodes failResolver exExtractor (exMemory dupFieldDoc) =
     Inr (([\<lparr>TypeName = ''Item'', FieldNames = [''a'', ''a'']\<rparr>], []),
          \<lparr>heap = [dupFieldDoc], baseSchemaCalls = 1\<rparr>)
   \<and> \<not> distinct (FieldNames \<lparr>TypeName = ''Item'', FieldNames = [''a'', ''a'']\<rparr>)"
  using dupFieldDoc_GetAllNodes by simp

subsection \<open>C8\<close>

text \<open>
  C8, as amended. The child set is not filtered by the \<open>external\<close> directive. Every
  record of the child set lists the names of all the field definitions of the node the
  index gives for its type name, the first node of that name, whether or not they carry
  the directive, and no other name: the field definitions of another node of the same
  name, such as an extension, are not collected. A type has a record when the node the
  index gives for it has a field definition and the type is the return type
  \<^verbatim>\<open>getAllChildNodes\<close> finds for a field name of a root record, or the return type of the
  first field definition of some name in the node of a type that has a record.
\<close>

theorem C8_child_set_keeps_external:
  assumes "GetAllNodes res r m = Inr ((rootNodes, childNodes), m')"
    and "deref m (document r) = Inr d"
  shows "(\<forall>tf \<in> set childNodes. \<exists>node fieldRefs.
            FirstNodeByNameStr (Index d) (TypeName tf) = Some node
          \<and> NodeFieldDefinitions d node = Inr fieldRefs
          \<and> (\<forall>fieldRef \<in> set fieldRefs. fieldRef < length (FieldDefinitions d))
          \<and> set (FieldNames tf) =
              (\<lambda>fieldRef. fd_Name (FieldDefinitions d ! fieldRef)) ` set fieldRefs)
       \<and> (\<forall>rootNode \<in> set rootNodes. \<forall>fieldName \<in> set (FieldNames rootNode). \<forall>t.
            rootFieldTypeName d rootNode fieldName = Some t \<and> indexedFieldNames d t \<noteq> []
            \<longrightarrow> (\<exists>tf \<in> set childNodes. TypeName tf = t))
       \<and> (\<forall>tf \<in> set childNodes. \<forall>node fieldRefs fieldName fieldRef t.
            FirstNodeByNameStr (Index d) (TypeName tf) = Some node
          \<and> NodeFieldDefinitions d node = Inr fieldRefs
          \<and> firstFieldNamed d fieldRefs fieldName = Some fieldRef
          \<and> returnTypeName d fieldRef = Some t \<and> indexedFieldNames d t \<noteq> []
            \<longrightarrow> (\<exists>tf' \<in> set childNodes. TypeName tf' = t))"
proof (intro conjI)
  note cn = GetAllNodes_result_at(3) [OF assms]
  show "\<forall>tf \<in> set childNodes. \<exists>node fieldRefs.
            FirstNodeByNameStr (Index d) (TypeName tf) = Some node
          \<and> NodeFieldDefinitions d node = Inr fieldRefs
          \<and> (\<forall>fieldRef \<in> set fieldRefs. fieldRef < length (FieldDefinitions d))
          \<and> set (FieldNames tf) =
              (\<lambda>fieldRef. fd_Name (FieldDefinitions d ! fieldRef)) ` set fieldRefs"
  proof
    fix tf assume "tf \<in> set childNodes"
    from getAllChildNodes_records(4) [OF cn this]
    show "\<exists>node fieldRefs.
            FirstNodeByNameStr (Index d) (TypeName tf) = Some node
          \<and> NodeFieldDefinitions d node = Inr fieldRefs
          \<and> (\<forall>fieldRef \<in> set fieldRefs. fieldRef < length (FieldDefinitions d))
          \<and> set (FieldNames tf) =
              (\<lambda>fieldRef. fd_Name (FieldDefinitions d ! fieldRef)) ` set fieldRefs" .
  qed
  show "\<forall>rootNode \<in> set rootNodes. \<forall>fieldName \<in> set (FieldNames rootNode). \<forall>t.
            rootFieldTypeName d rootNode fieldName = Some t \<and> indexedFieldNames d t \<noteq> []
            \<longrightarrow> (\<exists>tf \<in> set childNodes. TypeName tf = t)"
  proof (intro ballI allI impI, elim conjE)
    fix rootNode fieldName t
    assume "rootNode \<in> set rootNodes" "fieldName \<in> set (FieldNames rootNode)"
      "rootFieldTypeName d rootNode fieldName = Some t" "indexedFieldNames d t \<noteq> []"
    then show "\<exists>tf \<in> set childNodes. TypeName tf = t"
      by (rule getAllChildNodes_reaches(1) [OF cn])
  qed
  show "\<forall>tf \<in> set childNodes. \<forall>node fieldRefs fieldName fieldRef t.
            FirstNodeByNameStr (Index d) (TypeName tf) = Some node
          \<and> NodeFieldDefinitions d node = Inr fieldRefs
          \<and> firstFieldNamed d fieldRefs fieldName = Some fieldRef
          \<and> returnTypeName d fieldRef = Some t \<and> indexedFieldNames d t \<noteq> []
            \<longrightarrow> (\<exists>tf' \<in> set childNodes. TypeName tf' = t)"
  proof (intro ballI allI impI, elim conjE)
    fix tf node fieldRefs fieldName fieldRef t
    assume "tf \<in> set childNodes" "FirstNodeByNameStr (Index d) (TypeName tf) = Some node"
      "NodeFieldDefinitions d node = Inr fieldRefs"
      "firstFieldNamed d fieldRefs fieldName = Some fieldRef"
      "returnTypeName d fieldRef = Some t" "indexedFieldNames d t \<noteq> []"
    then show "\<exists>tf' \<in> set childNodes. TypeName tf' = t"
      by (rule getAllChildNodes_reaches(2) [OF cn])
  qed
qed

text \<open>
  C8 at \<open>exDoc\<close>: the child record of \<open>Foo\<close> lists \<open>secret\<close>, the field definition 3, which
  is external and missing from the root record of \<open>Foo\<close>; \<open>Foo\<close> has a record as the
  return type of the root field \<open>a\<close> of \<open>Query\<close>, and \<open>Bar\<close> as the return type of the
  field \<open>b\<close> of \<open>Foo\<close>.
\<close>

theorem C8_child_set_keeps_external_witness:
  "GetAllNodes (okResolver exDoc) exExtractor (exMemory exDoc) =
     Inr ((exRootNodes, exChildNodes), exMemoryAfter)
   \<and> deref (exMemory exDoc) (document exExtractor) = Inr exDoc
   \<and> \<lparr>TypeName = ''Foo'', FieldNames = [''id'', ''b'', ''secret'']\<rparr> \<in> set exChildNodes
   \<and> isExternalField exDoc 3
   \<and> fd_Name (FieldDefinitions exDoc ! 3) = ''secret''
   \<and> (\<exists>node fieldRefs.
         FirstNodeByNameStr (Index exDoc) ''Foo'' = Some node
       \<and> NodeFieldDefinitions exDoc node = Inr fieldRefs
       \<and> list_all (\<lambda>fieldRef. fieldRef < length (FieldDefinitions exDoc)) fieldRefs
       \<and> set [''id'', ''b'', ''secret''] =
           (\<lambda>fieldRef. fd_Name (FieldDefinitions exDoc ! fieldRef)) ` set fieldRefs)
   \<and> \<lparr>TypeName = ''Query'', FieldNames = [''a'']\<rparr> \<in> set exRootNodes
   \<and> rootFieldTypeName exDoc \<lparr>TypeName = ''Query'', FieldNames = [''a'']\<rparr> ''a'' = Some ''Foo''
   \<and> indexedFieldNames exDoc ''Foo'' \<noteq> []
   \<and> (\<exists>tf \<in> set exChildNodes. TypeName tf = ''Foo'')
   \<and> FirstNodeByNameStr (Index exDoc) ''Foo'' = Some \<lparr>Kind = NodeKindObjectTypeDefinition, Ref = 1\<rparr>
   \<and> NodeFieldDefinitions exDoc \<lparr>Kind = NodeKindObjectTypeDefinition, Ref = 1\<rparr> = Inr [1, 2, 3]
   \<and> firstFieldNamed exDoc [1, 2, 3] ''b'' = Some 2
   \<and> returnTypeName exDoc 2 = Some ''Bar''
   \<and> indexedFieldNames exDoc ''Bar'' \<noteq> []
   \<and> (\<exists>tf \<in> set exChildNodes. TypeName tf = ''Bar'')"
proof -
  let ?foo = "\<lparr>TypeName = ''Foo'', FieldNames = [''id'', ''b'', ''secret'']\<rparr>"
  let ?query = "\<lparr>TypeName = ''Query'', FieldNames = [''a'']\<rparr>"
  let ?node = "\<lparr>Kind = NodeKindObjectTypeDefinition, Ref = 1\<rparr>"
  note c = C8_child_set_keeps_external [OF exDoc_GetAllNodes exDoc_deref]
  have mem: "?foo \<in> set exChildNodes" by (simp add: exChildNodes_def)
  have ext: "isExternalField exDoc 3" by code_simp
  have nm: "fd_Name (FieldDefinitions exDoc ! 3) = ''secret''" by code_simp
  have root: "?query \<in> set exRootNodes" by (simp add: exRootNodes_def)
  have a: "''a'' \<in> set (FieldNames ?query)" by simp
  have rt: "rootFieldTypeName exDoc ?query ''a'' = Some ''Foo''" by code_simp
  have fooFields: "indexedFieldNames exDoc ''Foo'' \<noteq> []" by code_simp
  have n: "FirstNodeByNameStr (Index exDoc) (TypeName ?foo) = Some ?node" by code_simp
  have refs: "NodeFieldDefinitions exDoc ?node = Inr [1, 2, 3]" by code_simp
  have b: "firstFieldNamed exDoc [1, 2, 3] ''b'' = Some 2" by code_simp
  have bt: "returnTypeName exDoc 2 = Some ''Bar''" by code_simp
  have barFields: "indexedFieldNames exDoc ''Bar'' \<noteq> []" by code_simp
  from c mem have
    "\<exists>node fieldRefs.
         FirstNodeByNameStr (Index exDoc) (TypeName ?foo) = Some node
       \<and> NodeFieldDefinitions exDoc node = Inr fieldRefs
       \<and> (\<forall>fieldRef \<in> set fieldRefs. fieldRef < length (FieldDefinitions exDoc))
       \<and> set (FieldNames ?foo) =
           (\<lambda>fieldRef. fd_Name (FieldDefinitions exDoc ! fieldRef)) ` set fieldRefs"
    by blast
  then have rec:
    "\<exists>node fieldRefs.
         FirstNodeByNameStr (Index exDoc) ''Foo'' = Some node
       \<and> NodeFieldDefinitions exDoc node = Inr fieldRefs
       \<and> list_all (\<lambda>fieldRef. fieldRef < length (FieldDefinitions exDoc)) fieldRefs
       \<and> set [''id'', ''b'', ''secret''] =
           (\<lambda>fieldRef. fd_Name (FieldDefinitions exDoc ! fieldRef)) ` set fieldRefs"
    by (simp add: list_all_iff)
  from c root a rt fooFields have foo: "\<exists>tf \<in> set exChildNodes. TypeName tf = ''Foo''"
    by blast
  from c mem n refs b bt barFields have bar: "\<exists>tf \<in> set exChildNodes. TypeName tf = ''Bar''"
    by blast
  from n have n': "FirstNodeByNameStr (Index exDoc) ''Foo'' = Some ?node" by simp
  from exDoc_GetAllNodes exDoc_deref mem ext nm rec root rt fooFields foo n' refs b bt
    barFields bar
  show ?thesis by (intro conjI)
qed

text \<open>
  C8 as stated fails for a type with an extension. In \<open>extDoc\<close> the type \<open>User\<close> is the
  return type of the root field \<open>me\<close> of \<open>Query\<close>, and its extension declares the field
  \<open>name\<close>; the walk of \<open>User\<close> reads the definition of \<open>User\<close>, the node the index gives
  for the name, so the child record of \<open>User\<close> lists \<open>id\<close> and does not list \<open>name\<close>.
\<close>

theorem C8_counterexample:
  "map_sum id fst (GetAllNodes (okResolver extDoc) exExtractor (exMemory extDoc)) =
     Inr ([\<lparr>TypeName = ''Query'', FieldNames = [''me'']\<rparr>,
           \<lparr>TypeName = ''User'', FieldNames = [''id'']\<rparr>,
           \<lparr>TypeName = ''User'', FieldNames = [''name'']\<rparr>],
          [\<lparr>TypeName = ''User'', FieldNames = [''id'']\<rparr>])
   \<and> rootFieldTypeName extDoc \<lparr>TypeName = ''Query'', FieldNames = [''me'']\<rparr> ''me'' = Some ''User''
   \<and> \<lparr>Kind = NodeKindObjectTypeExtension, Ref = 2\<rparr> \<in> set (RootNodes extDoc)
   \<and> NodeNameString extDoc \<lparr>Kind = NodeKindObjectTypeExtension, Ref = 2\<rparr> = Inr ''User''
   \<and> NodeFieldDefinitions extDoc \<lparr>Kind = NodeKindObjectTypeExtension, Ref = 2\<rparr> = Inr [2]
   \<and> FieldDefinitionNameString extDoc 2 = Inr ''name''
   \<and> ''name'' \<notin> set (FieldNames \<lparr>TypeName = ''User'', FieldNames = [''id'']\<rparr>)"
proof -
  have "map_sum id fst (GetAllNodes (okResolver extDoc) exExtractor (exMemory extDoc)) =
     Inr ([\<lparr>TypeName = ''Query'', FieldNames = [''me'']\<rparr>,
           \<lparr>TypeName = ''User'', FieldNames = [''id'']\<rparr>,
           \<lparr>TypeName = ''User'', FieldNames = [''name'']\<rparr>],
          [\<lparr>TypeName = ''User'', FieldNames = [''id'']\<rparr>])"
    by code_simp
  moreover have
    "rootFieldTypeName extDoc \<lparr>TypeName = ''Query'', FieldNames = [''me'']\<rparr> ''me'' = Some ''User''"
    by code_simp
  moreover have "\<lparr>Kind = NodeKindObjectTypeExtension, Ref = 2\<rparr> \<in> set (RootNodes extDoc)"
    by (simp add: extDoc_def)
  moreover have
    "NodeNameString extDoc \<lparr>Kind = NodeKindObjectTypeExtension, Ref = 2\<rparr> = Inr ''User''"
    "NodeFieldDefinitions extDoc \<lparr>Kind = NodeKindObjectTypeExtension, Ref = 2\<rparr> = Inr [2]"
    "FieldDefinitionNameString extDoc 2 = Inr ''name''"
    by code_simp+
  ultimately show ?thesis by simp
qed

subsection \<open>C9\<close>

text \<open>
  C9. \<^verbatim>\<open>GetAllNodes\<close> leaves the caller's document unchanged: every cell of the memory
  that existed before the call, the document the extractor points to among them, holds
  after the call what it held before. The one write of the extraction, the merge in
  \<^verbatim>\<open>baseSchema\<close>, goes to a document parsed during the call; the caller gets the two
  sets.
\<close>

theorem C9_document_unchanged:
  assumes "GetAllNodes res r m = Inr ((rootNodes, childNodes), m')"
  shows "deref m' (document r) = deref m (document r)
       \<and> take (length (heap m)) (heap m') = heap m"
proof -
  from GetAllNodes_result [OF assms] obtain d ext where
    d: "deref m (document r) = Inr d" and ext: "heap m' = heap m @ ext" by blast
  from deref_extend [OF d ext] d ext show ?thesis by simp
qed

text \<open>
  C9 at \<open>exDoc\<close>: the six documents parsed by the three calls of \<^verbatim>\<open>baseSchema\<close> come
  after the caller's document, which is as it was.
\<close>

theorem C9_document_unchanged_witness:
  "GetAllNodes (okResolver exDoc) exExtractor (exMemory exDoc) =
     Inr ((exRootNodes, exChildNodes), exMemoryAfter)
   \<and> deref exMemoryAfter (document exExtractor) = Inr exDoc
   \<and> deref (exMemory exDoc) (document exExtractor) = Inr exDoc
   \<and> take (length (heap (exMemory exDoc))) (heap exMemoryAfter) = heap (exMemory exDoc)"
  using C9_document_unchanged [OF exDoc_GetAllNodes] exDoc_GetAllNodes exDoc_deref
  by simp

subsection \<open>C10\<close>

text \<open>
  C10. Let the type name of a root record resolve to a node, and let \<open>fieldNameToRef\<close> be
  the map \<^verbatim>\<open>getAllChildNodes\<close> builds from the field definitions of that node. A field
  name of the record that is the name of none of these field definitions is not passed
  over: the map gives the reference 0 for it, and the loop over the field names walks the
  return type of field definition 0 of the document where it stands, between the names
  before it and the names after it.
\<close>

theorem C10_missing_field_name_walks_field_zero:
  assumes "FirstNodeByNameStr (Index d) (TypeName rootNode) = Some rootNodeASTNode"
    and "NodeFieldDefinitions d rootNodeASTNode = Inr fieldRefs"
    and "fieldNameToRefs d fieldRefs Map.empty = Inr fieldNameToRef"
    and "FieldNames rootNode = before @ fieldName # after"
    and "Inr fieldName \<notin> FieldDefinitionNameString d ` set fieldRefs"
  shows "mapIndex fieldNameToRef fieldName = 0
       \<and> childNodesOfRootFields d fieldNameToRef (FieldNames rootNode) childNodes =
           (case childNodesOfRootFields d fieldNameToRef before childNodes of
              Inl e \<Rightarrow> Inl e
            | Inr childNodes1 \<Rightarrow>
                (case FieldDefinitionTypeNode d 0 of
                   Inl e \<Rightarrow> Inl e
                 | Inr typeNode \<Rightarrow>
                     (case NodeNameString d typeNode of
                        Inl e \<Rightarrow> Inl e
                      | Inr fieldTypeName \<Rightarrow>
                          (case findChildNodesForType d fieldTypeName childNodes1 of
                             Inl e \<Rightarrow> Inl e
                           | Inr childNodes2 \<Rightarrow>
                               childNodesOfRootFields d fieldNameToRef after childNodes2))))
       \<and> getAllChildNodesLoop d (rootNode # rest) childNodes =
           (case childNodesOfRootFields d fieldNameToRef (FieldNames rootNode) childNodes of
              Inl e \<Rightarrow> Inl e
            | Inr childNodes' \<Rightarrow> getAllChildNodesLoop d rest childNodes')"
proof (intro conjI)
  have "fieldNameToRef fieldName = None"
  proof (cases "fieldNameToRef fieldName")
    case None
    then show ?thesis .
  next
    case (Some ref)
    from fieldNameToRefs_dom [OF assms(3) Some] assms(5) show ?thesis by force
  qed
  then show zero: "mapIndex fieldNameToRef fieldName = 0" by (simp add: mapIndex_def)
  show "childNodesOfRootFields d fieldNameToRef (FieldNames rootNode) childNodes =
           (case childNodesOfRootFields d fieldNameToRef before childNodes of
              Inl e \<Rightarrow> Inl e
            | Inr childNodes1 \<Rightarrow>
                (case FieldDefinitionTypeNode d 0 of
                   Inl e \<Rightarrow> Inl e
                 | Inr typeNode \<Rightarrow>
                     (case NodeNameString d typeNode of
                        Inl e \<Rightarrow> Inl e
                      | Inr fieldTypeName \<Rightarrow>
                          (case findChildNodesForType d fieldTypeName childNodes1 of
                             Inl e \<Rightarrow> Inl e
                           | Inr childNodes2 \<Rightarrow>
                               childNodesOfRootFields d fieldNameToRef after childNodes2))))"
    unfolding assms(4) childNodesOfRootFields_append
    by (simp add: childNodesOfRootField_def zero split: sum.splits)
  show "getAllChildNodesLoop d (rootNode # rest) childNodes =
           (case childNodesOfRootFields d fieldNameToRef (FieldNames rootNode) childNodes of
              Inl e \<Rightarrow> Inl e
            | Inr childNodes' \<Rightarrow> getAllChildNodesLoop d rest childNodes')"
    using assms(1-3) by simp
qed

text \<open>
  C10 at \<open>extDoc\<close>: the root record of the extension of \<open>User\<close> has the field name
  \<open>name\<close>, the node of \<open>User\<close> has the one field \<open>id\<close>, and the walk goes to \<open>User\<close>,
  the return type of field definition 0 (\<open>me\<close> of \<open>Query\<close>).
\<close>

theorem C10_missing_field_name_walks_field_zero_witness:
  "FirstNodeByNameStr (Index extDoc) ''User'' = Some \<lparr>Kind = NodeKindObjectTypeDefinition, Ref = 1\<rparr>
   \<and> NodeFieldDefinitions extDoc \<lparr>Kind = NodeKindObjectTypeDefinition, Ref = 1\<rparr> = Inr [1]
   \<and> fieldNameToRefs extDoc [1] Map.empty = Inr [''id'' \<mapsto> 1]
   \<and> Inr ''name'' \<notin> FieldDefinitionNameString extDoc ` set [1]
   \<and> mapIndex [''id'' \<mapsto> 1] ''name'' = 0
   \<and> FieldDefinitionTypeNode extDoc 0 = Inr \<lparr>Kind = NodeKindObjectTypeDefinition, Ref = 1\<rparr>
   \<and> NodeNameString extDoc \<lparr>Kind = NodeKindObjectTypeDefinition, Ref = 1\<rparr> = Inr ''User''
   \<and> childNodesOfRootFields extDoc [''id'' \<mapsto> 1] [''name''] [] =
        findChildNodesForType extDoc ''User'' []
   \<and> findChildNodesForType extDoc ''User'' [] = Inr [\<lparr>TypeName = ''User'', FieldNames = [''id'']\<rparr>]"
proof -
  let ?n = "\<lparr>Kind = NodeKindObjectTypeDefinition, Ref = 1\<rparr>"
  let ?r = "\<lparr>TypeName = ''User'', FieldNames = [''name'']\<rparr>"
  have h1: "FirstNodeByNameStr (Index extDoc) (TypeName ?r) = Some ?n"
    by (simp add: FirstNodeByNameStr_def extDoc_def)
  have h2: "NodeFieldDefinitions extDoc ?n = Inr [1]"
    by (simp add: NodeFieldDefinitions_def at_def extDoc_def)
  have h3: "fieldNameToRefs extDoc [1] Map.empty = Inr [''id'' \<mapsto> 1]"
    by (simp add: FieldDefinitionNameString_def at_def extDoc_def)
  have h4: "FieldNames ?r = [] @ ''name'' # []" by simp
  have h5: "Inr ''name'' \<notin> FieldDefinitionNameString extDoc ` set [1]"
    by (simp add: FieldDefinitionNameString_def at_def extDoc_def)
  have t: "FieldDefinitionTypeNode extDoc 0 = Inr ?n"
    by (simp add: FieldDefinitionTypeNode_def FirstNodeByNameStr_def at_def extDoc_def)
  have n: "NodeNameString extDoc ?n = Inr ''User''"
    by (simp add: NodeNameString_def at_def extDoc_def)
  have w: "findChildNodesForType extDoc ''User'' [] = Inr [\<lparr>TypeName = ''User'', FieldNames = [''id'']\<rparr>]"
    by code_simp
  from C10_missing_field_name_walks_field_zero [OF h1 h2 h3 h4 h5, of "[]" "[]"] t n w
  have "mapIndex [''id'' \<mapsto> 1] ''name'' = 0"
    and "childNodesOfRootFields extDoc [''id'' \<mapsto> 1] [''name''] [] =
        findChildNodesForType extDoc ''User'' []"
    by simp_all
  with h1 h2 h3 h5 t n w show ?thesis by simp
qed

end
